theory Spec2Isabelle
  imports Main "HOL-Library.Char_ord" "HOL-Library.List_Lexorder"
begin

section \<open>The configuration store\<close>

text \<open>
  \<^verbatim>\<open>Params\<close> is a persistent key-value store. The supervisor uses it through
  \<^verbatim>\<open>get\<close>, \<^verbatim>\<open>get_bool\<close>, \<^verbatim>\<open>put\<close>, \<^verbatim>\<open>put_bool\<close> and \<^verbatim>\<open>clear_all\<close>.
  The store is a partial map from key names to values; a missing key reads as
  \<^verbatim>\<open>None\<close>.
\<close>

type_synonym params = "string \<rightharpoonup> string"

datatype ParamKeyType =
    CLEAR_ON_MANAGER_START
  | CLEAR_ON_ONROAD_TRANSITION
  | CLEAR_ON_OFFROAD_TRANSITION
  | DEVELOPMENT_ONLY

definition params_get :: "params \<Rightarrow> string \<Rightarrow> string option" where
  "params_get ps k = ps k"

definition params_put :: "string \<Rightarrow> string \<Rightarrow> params \<Rightarrow> params" where
  "params_put k v ps = ps(k \<mapsto> v)"

text \<open>
  Modelled from the spec: the class \<^verbatim>\<open>Params\<close> (openpilot.common.params) is not part of
  the source at hand. Section 4.1 of the specification gives \<^verbatim>\<open>getBool\<close> as false for an
  absent or unparsable value; the stored form of a boolean is the one-character string
  \<^verbatim>\<open>1\<close> or \<^verbatim>\<open>0\<close>.
\<close>

definition params_get_bool :: "params \<Rightarrow> string \<Rightarrow> bool" where
  "params_get_bool ps k = (params_get ps k = Some ''1'')"

definition params_put_bool :: "string \<Rightarrow> bool \<Rightarrow> params \<Rightarrow> params" where
  "params_put_bool k b ps = params_put k (if b then ''1'' else ''0'') ps"

text \<open>
  Modelled from the spec: \<^verbatim>\<open>clear_all(category)\<close> deletes every entry tagged with the
  category. The tagging is a static schema of the store, which the supervisor does not
  define; it is the parameter \<open>key_types\<close>.
\<close>

definition params_clear_all :: "(string \<Rightarrow> ParamKeyType list) \<Rightarrow> ParamKeyType \<Rightarrow> params \<Rightarrow> params" where
  "params_clear_all key_types t ps = (\<lambda>k. if t \<in> set (key_types k) then None else ps k)"

section \<open>Events, exceptions and the environment\<close>

text \<open>
  Calls into collaborators outside the supervisor (process control, the message bus,
  logging, the hardware layer) are recorded as events, in the order in which the
  supervisor makes them. Bulk clears of the store are recorded as well.
\<close>

datatype event =
    SaveBootlog
  | ClearAll ParamKeyType
  | Mkdir string
  | Register
  | Setenv string string
  | SentryInit
  | BindGlobal string
  | Prepare string
  | Stop string bool
  | LogInfo string
  | LogWarning string
  | LogException string
  | WriteOnroadParams bool
  | EnsureRunning "string list" bool "string list"
  | Send "string list"
  | OsSystem string
  | PrintExc
  | SentryCapture
  | HwUninstall
  | HwReboot
  | HwShutdown
  | AddFileHandler
  | TextWindow
  | Print string
  | UnblockStdout
  | SignalSIGTERM

text \<open>
  Python exceptions, as far as the handlers of the supervisor tell them apart:
  \<^verbatim>\<open>except Exception\<close> catches \<open>Exception\<close> only; \<^verbatim>\<open>SystemExit\<close> (raised by the
  SIGTERM handler through \<^verbatim>\<open>sys.exit(1)\<close>) and \<^verbatim>\<open>KeyboardInterrupt\<close> pass it.
\<close>

datatype exn = Exception string | SystemExit nat | KeyboardInterrupt

record build_metadata =
  release_channel :: bool
  tested_channel :: bool
  channel :: string
  version :: string
  git_commit :: string
  git_commit_date :: string
  git_origin :: string
  git_normalized_origin :: string
  is_dirty :: bool

text \<open>
  What the supervisor imports or reads from its surroundings and does not define itself:
  the schema of the store, the registry of workers (\<^verbatim>\<open>managed_processes\<close>, the worker
  names in insertion order), the car tables, the encoder \<^verbatim>\<open>json.dumps\<close> applies to one
  string, constants, the build metadata, the registration call (which may write the store
  and returns the identity, or nothing), the store effects of \<^verbatim>\<open>write_onroad_params\<close> and
  of \<^verbatim>\<open>os.system\<close>, and the environment variables.
\<close>

record environment =
  key_types :: "string \<Rightarrow> ParamKeyType list"
  managed_processes :: "string list"
  all_known_cars :: "string list"
  all_legacy_fingerprint_cars :: "string list"
  dumps_str :: "string \<Rightarrow> string"
  PC :: bool
  utcnow_isoformat :: string
  personality_standard :: string
  build :: build_metadata
  terms_version :: string
  training_version :: string
  device_type :: string
  UNREGISTERED_DONGLE_ID :: string
  register :: "params \<Rightarrow> params \<times> string option"
  write_onroad_params :: "bool \<Rightarrow> params \<Rightarrow> params"
  os_system :: "string \<Rightarrow> params \<Rightarrow> params"
  PREPAREONLY :: bool
  NOBOARD :: bool
  BLOCK :: "string option"

section \<open>get_support_vehicle_list\<close>

definition join :: "string \<Rightarrow> string list \<Rightarrow> string" where
  "join sep xs = (case xs of [] \<Rightarrow> [] | y # ys \<Rightarrow> y @ concat (map (\<lambda>z. sep @ z) ys))"

text \<open>
  \<^verbatim>\<open>json.dumps\<close> of the dictionary with the single key \<^verbatim>\<open>cars\<close> and a list of strings:
  an opening brace, the quoted key, a colon and a space, then the list in brackets with
  its items separated by a comma and a space.
\<close>

definition json_dumps_cars :: "(string \<Rightarrow> string) \<Rightarrow> string list \<Rightarrow> string" where
  "json_dumps_cars enc xs =
     ''{'' @ [CHR 0x22] @ ''cars'' @ [CHR 0x22] @ '': ['' @ join '', '' (map enc xs) @ '']}''"

definition get_support_vehicle_list :: "environment \<Rightarrow> string" where
  "get_support_vehicle_list env =
     (let list0 = all_known_cars env;
          list1 = fold (\<lambda>name l. if name \<notin> set l then l @ [name] else l)
                    (all_legacy_fingerprint_cars env) list0
      in json_dumps_cars (dumps_str env) (sort list1))"

section \<open>manager_init\<close>

definition default_params :: "environment \<Rightarrow> (string \<times> string) list" where
  "default_params env =
    [(''CompletedTrainingVersion'', ''0''),
     (''DisengageOnAccelerator'', ''0''),
     (''GsmMetered'', ''1''),
     (''HasAcceptedTerms'', ''0''),
     (''LanguageSetting'', ''main_zh-CHT''),
     (''OpenpilotEnabledToggle'', ''1''),
     (''LongitudinalPersonality'', personality_standard env),
     (''dp_device_display_off_mode'', ''0''),
     (''dp_ui_rainbow'', ''0''),
     (''dp_ui_flight_panel'', ''0''),
     (''dp_long_de2e'', ''0''),
     (''dp_long_personality_btn'', ''0''),
     (''dp_ui_map_full'', ''0''),
     (''dp_alka'', ''0''),
     (''dp_device_ip_addr'', ''''),
     (''dp_vag_sng'', ''0''),
     (''dp_vehicle_list'', ''''),
     (''dp_vehicle_assigned'', ''''),
     (''dp_nav_free_map'', ''0''),
     (''dp_nav_name'', ''0''),
     (''dp_nav_traffic'', ''0''),
     (''dp_toyota_auto_lock'', ''0''),
     (''dp_toyota_auto_unlock'', ''0''),
     (''dp_device_disable_onroad_uploads'', ''0''),
     (''dp_toyota_zss'', ''0''),
     (''dp_hkg_canfd_low_speed_turn_enhancer'', ''0''),
     (''dp_long_alt_driving_personality_mode'', ''0''),
     (''dp_long_alt_driving_personality_speed'', ''0''),
     (''dp_long_curve_speed_limiter'', ''0''),
     (''dp_lat_lane_change_assist_mode'', ''0''),
     (''dp_lat_lane_change_assist_speed'', ''32''),
     (''dp_lat_lane_change_assist_auto_timer'', ''1.5''),
     (''dp_lat_road_edge_detection'', ''0''),
     (''dp_device_disable_logging'', ''0''),
     (''dp_toyota_pcm_compensation'', ''0''),
     (''dp_device_is_clone'', ''0''),
     (''dp_device_dm_unavailable'', ''0''),
     (''dp_toyota_enhanced_bsm'', ''0''),
     (''dp_toyota_auto_brake_hold'', ''0''),
     (''dp_toyota_sng'', ''0''),
     (''dp_tetoo'', ''0''),
     (''dp_tetoo_data'', ''''),
     (''dp_tetoo_gps'', ''''),
     (''dp_tetoo_speed_camera_taiwan'', ''0''),
     (''dp_tetoo_speed_camera_threshold'', ''0''),
     (''dp_long_de2e_road_condition'', ''1''),
     (''dp_device_auto_shutdown'', ''0''),
     (''dp_device_auto_shutdown_in'', ''30''),
     (''dp_device_audible_alert_mode'', ''0''),
     (''dp_long_pal'', ''0''),
     (''dp_long_pal_freeze'', ''0''),
     (''dp_long_pal_launch_boost'', ''0''),
     (''dp_vag_pq_steering_patch'', ''0''),
     (''dp_lat_lane_priority_mode'', ''0''),
     (''dp_lat_lane_priority_mode_speed'', ''0''),
     (''dp_lat_lane_priority_mode_camera_offset'', ''4'')]
    @ (if \<not> PC env then [(''LastUpdateTime'', utcnow_isoformat env)] else [])"

text \<open>
  The seeding loop of \<^verbatim>\<open>manager_init\<close>:
  \<^verbatim>\<open>for k, v in default_params: if params.get(k) is None: params.put(k, v)\<close>.
\<close>

fun set_default_params :: "(string \<times> string) list \<Rightarrow> params \<Rightarrow> params" where
  "set_default_params [] ps = ps"
| "set_default_params ((k, v) # kvs) ps =
     set_default_params kvs (if params_get ps k = None then params_put k v ps else ps)"

text \<open>
  The store part of \<^verbatim>\<open>manager_init\<close> up to and including the seeding loop: the clears
  of the three transition categories (and of the development keys on a release channel),
  the write of the vehicle list, the \<^verbatim>\<open>RecordFrontLock\<close> rule and the seeding.
\<close>

definition init_clear :: "environment \<Rightarrow> params \<Rightarrow> params" where
  "init_clear env ps0 =
     (let ps1 = params_clear_all (key_types env) CLEAR_ON_MANAGER_START ps0;
          ps2 = params_clear_all (key_types env) CLEAR_ON_ONROAD_TRANSITION ps1;
          ps3 = params_clear_all (key_types env) CLEAR_ON_OFFROAD_TRANSITION ps2
      in if release_channel (build env)
         then params_clear_all (key_types env) DEVELOPMENT_ONLY ps3 else ps3)"

definition init_vehicle_list :: "environment \<Rightarrow> params \<Rightarrow> params" where
  "init_vehicle_list env ps =
     (let ps1 = params_put ''dp_vehicle_list'' (get_support_vehicle_list env) ps
      in if params_get_bool ps1 ''RecordFrontLock''
         then params_put_bool ''RecordFront'' True ps1 else ps1)"

definition init_seed :: "environment \<Rightarrow> params \<Rightarrow> params" where
  "init_seed env ps0 =
     set_default_params (default_params env) (init_vehicle_list env (init_clear env ps0))"

definition init_versions :: "environment \<Rightarrow> params \<Rightarrow> params" where
  "init_versions env ps =
     (params_put_bool ''IsReleaseBranch'' (release_channel (build env))
     (params_put_bool ''IsTestedBranch'' (tested_channel (build env))
     (params_put ''GitRemote'' (git_origin (build env))
     (params_put ''GitBranch'' (channel (build env))
     (params_put ''GitCommitDate'' (git_commit_date (build env))
     (params_put ''GitCommit'' (git_commit (build env))
     (params_put ''TrainingVersion'' (training_version env)
     (params_put ''TermsVersion'' (terms_version env)
     (params_put ''Version'' (version (build env)) ps)))))))))"

text \<open>
  The events of \<^verbatim>\<open>manager_init\<close> before the registration call.
\<close>

definition init_events :: "environment \<Rightarrow> event list" where
  "init_events env =
     [SaveBootlog,
      ClearAll CLEAR_ON_MANAGER_START,
      ClearAll CLEAR_ON_ONROAD_TRANSITION,
      ClearAll CLEAR_ON_OFFROAD_TRANSITION]
     @ (if release_channel (build env) then [ClearAll DEVELOPMENT_ONLY] else [])
     @ [Mkdir ''/dev/shm'']"

text \<open>
  Python's truth value of the registration result: \<^verbatim>\<open>None\<close> and the empty string are
  falsy.
\<close>

definition truthy :: "string option \<Rightarrow> bool" where
  "truthy r = (case r of None \<Rightarrow> False | Some d \<Rightarrow> d \<noteq> [])"

text \<open>
  The text of the registration failure. The serial is read without an encoding, so a
  present value is formatted as a bytes literal and an absent one as \<^verbatim>\<open>None\<close>.
\<close>

definition registration_failed :: "string option \<Rightarrow> exn" where
  "registration_failed serial =
     Exception (''Registration failed for device '' @
       (case serial of None \<Rightarrow> ''None'' | Some b \<Rightarrow> ''b'' @ [CHR 0x27] @ b @ [CHR 0x27]))"

text \<open>
  The rest of \<^verbatim>\<open>manager_init\<close> after a successful registration: the environment
  variables for logging, the logging set-up, and the preparation of every worker.
\<close>

definition init_registered :: "environment \<Rightarrow> string \<Rightarrow> event list" where
  "init_registered env dongle_id =
     [Setenv ''DONGLE_ID'' dongle_id,
      Setenv ''GIT_ORIGIN'' (git_normalized_origin (build env)),
      Setenv ''GIT_BRANCH'' (channel (build env)),
      Setenv ''GIT_COMMIT'' (git_commit (build env))]
     @ (if \<not> is_dirty (build env) then [Setenv ''CLEAN'' ''1''] else [])
     @ [SentryInit, BindGlobal dongle_id]
     @ map Prepare (managed_processes env)"

definition manager_init :: "environment \<Rightarrow> params \<Rightarrow> params \<times> event list \<times> (exn + unit)" where
  "manager_init env ps0 =
     (let ps1 = init_versions env (init_seed env ps0);
          (ps2, reg_res) = register env ps1
      in if truthy reg_res then
           (case reg_res of
              Some dongle_id \<Rightarrow>
                (ps2, init_events env @ [Register] @ init_registered env dongle_id, Inr ())
            | None \<Rightarrow>
                (ps2, init_events env @ [Register],
                 Inl (registration_failed (params_get ps2 ''HardwareSerial''))))
         else
           (ps2, init_events env @ [Register],
            Inl (registration_failed (params_get ps2 ''HardwareSerial''))))"

section \<open>manager_cleanup\<close>

text \<open>
  Two passes over the registry: a stop without blocking for every worker, then a blocking
  stop for every worker, then the log line.
\<close>

definition manager_cleanup :: "environment \<Rightarrow> event list" where
  "manager_cleanup env =
     map (\<lambda>p. Stop p False) (managed_processes env)
     @ map (\<lambda>p. Stop p True) (managed_processes env)
     @ [LogInfo ''everything is dead'']"

section \<open>manager_thread\<close>

text \<open>Python's \<^verbatim>\<open>str.split\<close> with a one-character separator.\<close>

fun split :: "char \<Rightarrow> string \<Rightarrow> string list" where
  "split c [] = [[]]"
| "split c (x # xs) =
     (if x = c then [] # split c xs
      else (case split c xs of [] \<Rightarrow> [[x]] | w # ws \<Rightarrow> (x # w) # ws))"

text \<open>
  The list \<^verbatim>\<open>ignore\<close>, built once when \<^verbatim>\<open>manager_thread\<close> starts, from the store and
  the environment variables \<^verbatim>\<open>NOBOARD\<close> and \<^verbatim>\<open>BLOCK\<close>.
\<close>

definition build_ignore :: "environment \<Rightarrow> params \<Rightarrow> string list" where
  "build_ignore env ps =
     (let dp_device_dm_unavailable = params_get_bool ps ''dp_device_dm_unavailable'';
          dp_device_is_clone = params_get_bool ps ''dp_device_is_clone'';
          ignore1 =
            (if dp_device_is_clone \<or> dp_device_dm_unavailable then
               [''manage_athenad'', ''uploader'']
               @ (if dp_device_dm_unavailable then [''dmonitoringd'', ''dmonitoringmodeld''] else [])
             else []);
          ignore2 =
            ignore1 @
            (if params_get ps ''DongleId'' = None
                \<or> params_get ps ''DongleId'' = Some (UNREGISTERED_DONGLE_ID env)
             then [''manage_athenad'', ''uploader''] else []);
          ignore3 = ignore2 @ (if NOBOARD env then [''pandad''] else [])
      in ignore3 @
         filter (\<lambda>x. length x > 0)
           (split CHR '','' (case BLOCK env of None \<Rightarrow> [] | Some b \<Rightarrow> b)))"

text \<open>
  What one pass of the loop receives from outside: the writes other actors made to the
  store while the loop waited in \<^verbatim>\<open>sm.update\<close>, the sampled \<^verbatim>\<open>started\<close> flag, an
  exception raised by one of the calls of the loop body (if any), and the text of
  \<^verbatim>\<open>datetime.now()\<close> read when the scan handles a given flag.
\<close>

datatype call_site = SmUpdate | EnsureRunningCall | PmSend

record tick =
  ext_writes :: "params \<Rightarrow> params"
  sample_started :: bool
  fault :: "(call_site \<times> exn) option"
  now_str :: "string \<Rightarrow> string"

definition raises_at :: "tick \<Rightarrow> call_site \<Rightarrow> exn option" where
  "raises_at t c = (case fault t of None \<Rightarrow> None | Some (c', e) \<Rightarrow> if c' = c then Some e else None)"

text \<open>
  The edge detection of the loop body: the clear of the transition category and the
  update of the onroad parameters.
\<close>

definition transition :: "environment \<Rightarrow> bool \<Rightarrow> bool \<Rightarrow> params \<Rightarrow> params \<times> event list" where
  "transition env started started_prev ps =
     (let (ps1, ev1) =
            (if started \<and> \<not> started_prev then
               (params_clear_all (key_types env) CLEAR_ON_ONROAD_TRANSITION ps,
                [ClearAll CLEAR_ON_ONROAD_TRANSITION])
             else if \<not> started \<and> started_prev then
               (params_clear_all (key_types env) CLEAR_ON_OFFROAD_TRANSITION ps,
                [ClearAll CLEAR_ON_OFFROAD_TRANSITION])
             else (ps, []));
          (ps2, ev2) =
            (if started \<noteq> started_prev then
               (write_onroad_params env started ps1, [WriteOnroadParams started])
             else (ps1, []))
      in (ps2, ev1 @ ev2))"

text \<open>
  The loop body from \<^verbatim>\<open>sm.update\<close> to \<^verbatim>\<open>pm.send\<close>. The result is the new value of
  \<^verbatim>\<open>started_prev\<close>, or the exception that left the body. An exception raised by
  \<^verbatim>\<open>sm.update\<close> leaves the body before anything else happens; one raised inside
  \<^verbatim>\<open>ensure_running\<close> comes after the call was made, so the call is recorded; one raised
  by \<^verbatim>\<open>pm.send\<close> leaves the body without a heartbeat. The status line printed to the
  console is presentation only and is left out.
\<close>

definition tick_work ::
  "environment \<Rightarrow> string list \<Rightarrow> tick \<Rightarrow> bool \<Rightarrow> params \<Rightarrow> params \<times> event list \<times> (exn + bool)" where
  "tick_work env ignore t started_prev ps =
     (case raises_at t SmUpdate of
        Some e \<Rightarrow> (ps, [], Inl e)
      | None \<Rightarrow>
          (let started = sample_started t;
               (ps1, ev1) = transition env started started_prev (ext_writes t ps);
               ev2 = ev1 @ [EnsureRunning (managed_processes env) started ignore]
           in case raises_at t EnsureRunningCall of
                Some e \<Rightarrow> (ps1, ev2, Inl e)
              | None \<Rightarrow>
                  (case raises_at t PmSend of
                     Some e \<Rightarrow> (ps1, ev2, Inl e)
                   | None \<Rightarrow> (ps1, ev2 @ [Send (managed_processes env)], Inr started))))"

text \<open>
  The scan of the shutdown flags at the end of the loop body. The loop over the four
  keys has no \<^verbatim>\<open>break\<close>: every key is read, and every key that reads true writes
  \<^verbatim>\<open>LastManagerExitReason\<close>.
\<close>

definition shutdown_params :: "string list" where
  "shutdown_params = [''DoUninstall'', ''DoShutdown'', ''DoReboot'', ''dp_device_reset_conf'']"

definition scan_param ::
  "environment \<Rightarrow> (string \<Rightarrow> string) \<Rightarrow> string \<Rightarrow> params \<times> event list \<times> bool \<Rightarrow> params \<times> event list \<times> bool" where
  "scan_param env now param acc =
     (case acc of (ps, ev, shutdown) \<Rightarrow>
        if params_get_bool ps param then
          (let (ps1, ev1) =
                 (if param = ''dp_device_reset_conf'' then
                    (os_system env ''rm -fr /data/params/d/dp_*'' ps,
                     [OsSystem ''rm -fr /data/params/d/dp_*''])
                  else (ps, []));
               ps2 = params_put ''LastManagerExitReason'' (param @ '' '' @ now param) ps1
           in (ps2,
               ev @ ev1 @ [LogWarning (''Shutting down manager - '' @ param @ '' set'')],
               True))
        else (ps, ev, shutdown))"

definition scan_shutdown ::
  "environment \<Rightarrow> (string \<Rightarrow> string) \<Rightarrow> params \<Rightarrow> params \<times> event list \<times> bool" where
  "scan_shutdown env now ps = fold (scan_param env now) shutdown_params (ps, [], False)"

text \<open>
  One pass of \<^verbatim>\<open>while True\<close>. The result is the new \<^verbatim>\<open>started_prev\<close> and whether the
  loop breaks, or the exception that left the body.
\<close>

definition loop_body ::
  "environment \<Rightarrow> string list \<Rightarrow> tick \<Rightarrow> bool \<Rightarrow> params \<Rightarrow> params \<times> event list \<times> (exn + bool \<times> bool)" where
  "loop_body env ignore t started_prev ps =
     (case tick_work env ignore t started_prev ps of
        (ps1, ev1, Inl e) \<Rightarrow> (ps1, ev1, Inl e)
      | (ps1, ev1, Inr started) \<Rightarrow>
          (case scan_shutdown env (now_str t) ps1 of
             (ps2, ev2, shutdown) \<Rightarrow> (ps2, ev1 @ ev2, Inr (started, shutdown))))"

text \<open>
  The loop, run on the inputs of finitely many passes. \<open>None\<close> means that the loop has
  not ended within these passes; \<open>Some (Inr ())\<close> is the \<^verbatim>\<open>break\<close>, \<open>Some (Inl e)\<close> an
  exception that leaves the loop.
\<close>

fun manager_loop ::
  "environment \<Rightarrow> string list \<Rightarrow> tick list \<Rightarrow> bool \<Rightarrow> params \<Rightarrow> params \<times> event list \<times> (exn + unit) option" where
  "manager_loop env ignore [] started_prev ps = (ps, [], None)"
| "manager_loop env ignore (t # ts) started_prev ps =
     (case loop_body env ignore t started_prev ps of
        (ps1, ev1, Inl e) \<Rightarrow> (ps1, ev1, Some (Inl e))
      | (ps1, ev1, Inr (started, shutdown)) \<Rightarrow>
          if shutdown then (ps1, ev1, Some (Inr ()))
          else (case manager_loop env ignore ts started ps1 of
                  (ps2, ev2, r) \<Rightarrow> (ps2, ev1 @ ev2, r)))"

definition manager_thread ::
  "environment \<Rightarrow> tick list \<Rightarrow> params \<Rightarrow> params \<times> event list \<times> (exn + unit) option" where
  "manager_thread env ts ps =
     (let ignore = build_ignore env ps;
          ps1 = write_onroad_params env False ps;
          ev1 = [LogInfo ''manager start'',
                 WriteOnroadParams False,
                 EnsureRunning (managed_processes env) False ignore]
      in case manager_loop env ignore ts False ps1 of
           (ps2, ev2, r) \<Rightarrow> (ps2, ev1 @ ev2, r))"

section \<open>main and the script body\<close>

definition hardware_action :: "params \<Rightarrow> event list" where
  "hardware_action ps =
     (if params_get_bool ps ''DoUninstall'' then [LogWarning ''uninstalling'', HwUninstall]
      else if params_get_bool ps ''DoReboot'' then [LogWarning ''reboot'', HwReboot]
      else if params_get_bool ps ''DoShutdown'' then [LogWarning ''shutdown'', HwShutdown]
      else [])"

text \<open>
  \<^verbatim>\<open>main\<close>: \<^verbatim>\<open>manager_init\<close> is called outside the \<^verbatim>\<open>try\<close> statement, so its exception
  leaves \<^verbatim>\<open>main\<close> at once. \<^verbatim>\<open>manager_thread\<close> runs inside
  \<^verbatim>\<open>try ... except Exception ... finally manager_cleanup()\<close>: an \<open>Exception\<close> is reported
  and swallowed, any other exception is raised again after the cleanup. The hardware
  decision follows only when \<^verbatim>\<open>main\<close> goes on after the \<^verbatim>\<open>try\<close> statement.
\<close>

definition main ::
  "environment \<Rightarrow> tick list \<Rightarrow> params \<Rightarrow> params \<times> event list \<times> (exn + unit) option" where
  "main env ts ps0 =
     (case manager_init env ps0 of
        (ps1, ev1, Inl e) \<Rightarrow> (ps1, ev1, Some (Inl e))
      | (ps1, ev1, Inr u) \<Rightarrow>
          if PREPAREONLY env then (ps1, ev1, Some (Inr ()))
          else
            (case manager_thread env ts ps1 of
               (ps2, ev2, None) \<Rightarrow> (ps2, ev1 @ [SignalSIGTERM] @ ev2, None)
             | (ps2, ev2, Some (Inr v)) \<Rightarrow>
                 (ps2,
                  ev1 @ [SignalSIGTERM] @ ev2 @ manager_cleanup env @ hardware_action ps2,
                  Some (Inr ()))
             | (ps2, ev2, Some (Inl (Exception m))) \<Rightarrow>
                 (ps2,
                  ev1 @ [SignalSIGTERM] @ ev2 @ [PrintExc, SentryCapture]
                  @ manager_cleanup env @ hardware_action ps2,
                  Some (Inr ()))
             | (ps2, ev2, Some (Inl (SystemExit n))) \<Rightarrow>
                 (ps2, ev1 @ [SignalSIGTERM] @ ev2 @ manager_cleanup env, Some (Inl (SystemExit n)))
             | (ps2, ev2, Some (Inl KeyboardInterrupt)) \<Rightarrow>
                 (ps2, ev1 @ [SignalSIGTERM] @ ev2 @ manager_cleanup env, Some (Inl KeyboardInterrupt))))"

text \<open>
  The body of the script: \<^verbatim>\<open>KeyboardInterrupt\<close> is printed and the script exits with 0;
  an \<open>Exception\<close> is logged, the worker \<^verbatim>\<open>ui\<close> alone is stopped (a missing \<^verbatim>\<open>ui\<close> is
  ignored), the error is shown and raised again, which ends the interpreter with status 1;
  \<^verbatim>\<open>SystemExit\<close> ends it with its own code. The result is the exit status, or \<open>None\<close>
  while the loop is still running.
\<close>

definition script :: "environment \<Rightarrow> tick list \<Rightarrow> params \<Rightarrow> params \<times> event list \<times> nat option" where
  "script env ts ps0 =
     (case main env ts ps0 of
        (ps, ev, None) \<Rightarrow> (ps, [UnblockStdout] @ ev, None)
      | (ps, ev, Some (Inr u)) \<Rightarrow> (ps, [UnblockStdout] @ ev, Some 0)
      | (ps, ev, Some (Inl KeyboardInterrupt)) \<Rightarrow>
          (ps, [UnblockStdout] @ ev @ [Print ''got CTRL-C, exiting''], Some 0)
      | (ps, ev, Some (Inl (SystemExit n))) \<Rightarrow> (ps, [UnblockStdout] @ ev, Some n)
      | (ps, ev, Some (Inl (Exception m))) \<Rightarrow>
          (ps,
           [UnblockStdout] @ ev @ [AddFileHandler, LogException ''Manager failed to start'']
           @ (if ''ui'' \<in> set (managed_processes env) then [Stop ''ui'' True] else [])
           @ [TextWindow],
           Some 1))"

section \<open>Reading a run\<close>

text \<open>
  Every function above returns the store it leaves, the events it produced and its result.
\<close>

fun store_of :: "'s \<times> 'e \<times> 'r \<Rightarrow> 's" where
  "store_of (s, e, r) = s"

fun events_of :: "'s \<times> 'e \<times> 'r \<Rightarrow> 'e" where
  "events_of (s, e, r) = e"

fun result_of :: "'s \<times> 'e \<times> 'r \<Rightarrow> 'r" where
  "result_of (s, e, r) = r"

text \<open>The number of bulk clears of one category among some events.\<close>

definition clears :: "ParamKeyType \<Rightarrow> event list \<Rightarrow> nat" where
  "clears c evs = length (filter (\<lambda>e. e = ClearAll c) evs)"

text \<open>
  The number of steps from value \<open>a\<close> to value \<open>b\<close> in a sequence of samples that follows
  the value \<open>prev\<close>.
\<close>

fun edges :: "bool \<Rightarrow> bool \<Rightarrow> bool \<Rightarrow> bool list \<Rightarrow> nat" where
  "edges a b prev [] = 0"
| "edges a b prev (x # xs) = (if prev = a \<and> x = b then 1 else 0) + edges a b x xs"

text \<open>The reconciliation calls and the heartbeat publications among some events.\<close>

fun is_reconcile_or_send :: "event \<Rightarrow> bool" where
  "is_reconcile_or_send (EnsureRunning procs started not_run) = True"
| "is_reconcile_or_send (Send procs) = True"
| "is_reconcile_or_send e = False"

fun is_send :: "event \<Rightarrow> bool" where
  "is_send (Send procs) = True"
| "is_send e = False"

fun is_hardware_action :: "event \<Rightarrow> bool" where
  "is_hardware_action HwUninstall = True"
| "is_hardware_action HwReboot = True"
| "is_hardware_action HwShutdown = True"
| "is_hardware_action e = False"

fun is_stop :: "event \<Rightarrow> bool" where
  "is_stop (Stop p b) = True"
| "is_stop e = False"

text \<open>
  The events the loop body can produce: clears, the update of the onroad parameters,
  reconciliation over the whole registry with the list \<^verbatim>\<open>ignore\<close> as \<^verbatim>\<open>not_run\<close>, the
  heartbeat over the whole registry, and the command and the log line of the scan.
\<close>

fun loop_event :: "environment \<Rightarrow> string list \<Rightarrow> event \<Rightarrow> bool" where
  "loop_event env ignore (ClearAll c) = True"
| "loop_event env ignore (WriteOnroadParams b) = True"
| "loop_event env ignore (EnsureRunning procs started not_run) =
     (procs = managed_processes env \<and> not_run = ignore)"
| "loop_event env ignore (Send procs) = (procs = managed_processes env)"
| "loop_event env ignore (OsSystem cmd) = True"
| "loop_event env ignore (LogWarning msg) = True"
| "loop_event env ignore e = False"

text \<open>The flags that read true in a store, in the order of the scan.\<close>

definition matching_flags :: "params \<Rightarrow> string list" where
  "matching_flags ps = filter (params_get_bool ps) shutdown_params"

section \<open>Worker states\<close>

text \<open>
  Modelled from the spec: \<^verbatim>\<open>ensure_running\<close> and the method \<^verbatim>\<open>stop\<close> of a managed
  process (openpilot.system.manager.process) are not part of the source at hand. Section 4.3
  of the specification has every worker start as stopped; on each reconciliation a worker
  of the registry should run when its enablement predicate holds and its name is not in
  the block list; a worker that should run is started, a running worker that should not is
  signalled to stop without blocking. Section 4.6 has the blocking stop wait until the
  worker has stopped. The enablement predicate is the parameter \<open>enabled\<close>.
\<close>

datatype worker_state = Stopped | Running | Stopping

definition should_run :: "(string \<Rightarrow> bool \<Rightarrow> bool) \<Rightarrow> bool \<Rightarrow> string list \<Rightarrow> string \<Rightarrow> bool" where
  "should_run enabled started not_run name = (enabled name started \<and> name \<notin> set not_run)"

definition signal_stop :: "worker_state \<Rightarrow> worker_state" where
  "signal_stop w = (case w of Running \<Rightarrow> Stopping | Stopping \<Rightarrow> Stopping | Stopped \<Rightarrow> Stopped)"

fun worker_step ::
  "(string \<Rightarrow> bool \<Rightarrow> bool) \<Rightarrow> event \<Rightarrow> (string \<Rightarrow> worker_state) \<Rightarrow> (string \<Rightarrow> worker_state)" where
  "worker_step enabled (EnsureRunning procs started not_run) w =
     (\<lambda>p. if p \<in> set procs then
             (if should_run enabled started not_run p then Running else signal_stop (w p))
           else w p)"
| "worker_step enabled (Stop name block) w =
     w(name := (if block then Stopped else signal_stop (w name)))"
| "worker_step enabled e w = w"

definition workers_after :: "(string \<Rightarrow> bool \<Rightarrow> bool) \<Rightarrow> event list \<Rightarrow> string \<Rightarrow> worker_state" where
  "workers_after enabled evs = fold (worker_step enabled) evs (\<lambda>p. Stopped)"

section \<open>A concrete device\<close>

text \<open>
  An environment, stores and loop inputs on which the functions above are evaluated.
\<close>

definition example_build :: build_metadata where
  "example_build =
     \<lparr>release_channel = False, tested_channel = False, channel = ''master'',
      version = ''0.9.8'', git_commit = ''abc'', git_commit_date = ''2024-01-01'',
      git_origin = ''origin'', git_normalized_origin = ''origin'', is_dirty = False\<rparr>"

definition example_env :: environment where
  "example_env =
     \<lparr>key_types = (\<lambda>k. if k = ''DoReboot'' \<or> k = ''DoShutdown'' \<or> k = ''DoUninstall''
                        then [CLEAR_ON_MANAGER_START]
                        else if k = ''CurrentRoute'' then [CLEAR_ON_ONROAD_TRANSITION]
                        else if k = ''ControlsReady'' then [CLEAR_ON_OFFROAD_TRANSITION]
                        else []),
      managed_processes = [''ui'', ''uploader'', ''manage_athenad'', ''pandad''],
      all_known_cars = [''TOYOTA_COROLLA'', ''HONDA_CIVIC''],
      all_legacy_fingerprint_cars = [''HONDA_CIVIC'', ''FORD_FOCUS''],
      dumps_str = (\<lambda>s. [CHR 0x22] @ s @ [CHR 0x22]),
      PC = False,
      utcnow_isoformat = ''2024-01-01T00:00:00'',
      personality_standard = ''standard'',
      build = example_build,
      terms_version = ''2'',
      training_version = ''0.2.0'',
      device_type = ''tici'',
      UNREGISTERED_DONGLE_ID = ''UnregisteredDevice'',
      register = (\<lambda>ps. (ps(''DongleId'' \<mapsto> ''abc123''), Some ''abc123'')),
      write_onroad_params =
        (\<lambda>b ps. params_put_bool ''IsOffroad'' (\<not> b) (params_put_bool ''IsOnroad'' b ps)),
      os_system = (\<lambda>cmd ps k. if take 3 k = ''dp_'' then None else ps k),
      PREPAREONLY = False,
      NOBOARD = False,
      BLOCK = Some ''uploader''\<rparr>"

definition unregistered_env :: environment where
  "unregistered_env = example_env\<lparr>register := (\<lambda>ps. (ps, None))\<rparr>"

definition example_now :: "string \<Rightarrow> string" where
  "example_now param = ''2024-01-01 00:00:00''"

definition quiet_tick :: "bool \<Rightarrow> tick" where
  "quiet_tick b = \<lparr>ext_writes = (\<lambda>ps. ps), sample_started = b, fault = None, now_str = example_now\<rparr>"

definition reboot_tick :: "bool \<Rightarrow> tick" where
  "reboot_tick b =
     \<lparr>ext_writes = (\<lambda>ps. ps(''DoReboot'' \<mapsto> ''1'')), sample_started = b, fault = None,
      now_str = example_now\<rparr>"

definition sigterm_tick :: tick where
  "sigterm_tick =
     \<lparr>ext_writes = (\<lambda>ps. ps), sample_started = False, fault = Some (SmUpdate, SystemExit 1),
      now_str = example_now\<rparr>"

definition two_flags :: params where
  "two_flags = [''DoUninstall'' \<mapsto> ''1'', ''DoReboot'' \<mapsto> ''1'']"

definition always_enabled :: "string \<Rightarrow> bool \<Rightarrow> bool" where
  "always_enabled name started = True"

section \<open>Seeding of the defaults\<close>

text \<open>
  The seeding loop writes a key only when it is absent, so the seeded store is the old
  store laid over the table (the first entry of a key in the table is the one that counts,
  since after its write the key is present).
\<close>

lemma set_default_params_eq:
  "set_default_params dps ps = map_of dps ++ ps"
proof (induction dps arbitrary: ps)
  case Nil
  then show ?case by simp
next
  case (Cons kv dps)
  obtain k v where kv: "kv = (k, v)" by (cases kv)
  show ?case
  proof (cases "ps k")
    case None
    then show ?thesis
      by (auto simp: kv Cons.IH params_get_def params_put_def map_add_def fun_eq_iff
            split: option.splits)
  next
    case (Some w)
    then show ?thesis
      by (auto simp: kv Cons.IH params_get_def params_put_def map_add_def fun_eq_iff
            split: option.splits)
  qed
qed

lemma set_default_params_keeps:
  "params_get ps k = Some v \<Longrightarrow> params_get (set_default_params dps ps) k = Some v"
  by (simp add: set_default_params_eq params_get_def map_add_def)

text \<open>
  Claim C6. Seeding is idempotent and never overwrites: for every table and every store,
  seeding a second time changes nothing; a key that already has a value (the same as the
  default or a different one) keeps that value; and a key is given its default only when
  it was absent.
\<close>

theorem seeding_idempotent_no_overwrite:
  "set_default_params dps (set_default_params dps ps) = set_default_params dps ps
   \<and> (\<forall>k v. params_get ps k = Some v \<longrightarrow> params_get (set_default_params dps ps) k = Some v)
   \<and> (\<forall>k. params_get ps k = None \<longrightarrow> params_get (set_default_params dps ps) k = map_of dps k)"
  by (auto simp: set_default_params_eq params_get_def map_add_def fun_eq_iff split: option.splits)

theorem seeding_idempotent_no_overwrite_witness:
  "params_get [''GsmMetered'' \<mapsto> ''0''] ''GsmMetered'' = Some ''0''
   \<and> params_get (set_default_params (default_params example_env) [''GsmMetered'' \<mapsto> ''0''])
        ''GsmMetered'' = Some ''0''
   \<and> params_get [''GsmMetered'' \<mapsto> ''0''] ''dp_alka'' = None
   \<and> params_get (set_default_params (default_params example_env) [''GsmMetered'' \<mapsto> ''0''])
        ''dp_alka'' = map_of (default_params example_env) ''dp_alka''"
proof -
  have present: "params_get [''GsmMetered'' \<mapsto> ''0''] ''GsmMetered'' = Some ''0''"
    by (simp add: params_get_def)
  have absent: "params_get [''GsmMetered'' \<mapsto> ''0''] ''dp_alka'' = None"
    by (simp add: params_get_def)
  from seeding_idempotent_no_overwrite
         [of "default_params example_env" "[''GsmMetered'' \<mapsto> ''0'']"] present absent
  show ?thesis by blast
qed

section \<open>The vehicle list\<close>

lemma get_support_vehicle_list_nonempty: "get_support_vehicle_list env \<noteq> []"
  by (simp add: get_support_vehicle_list_def json_dumps_cars_def Let_def)

lemma init_vehicle_list_get:
  "params_get (init_vehicle_list env ps) ''dp_vehicle_list'' = Some (get_support_vehicle_list env)"
  by (simp add: init_vehicle_list_def Let_def params_get_def params_put_def params_put_bool_def)

lemma init_versions_other:
  "k \<notin> {''Version'', ''TermsVersion'', ''TrainingVersion'', ''GitCommit'', ''GitCommitDate'',
         ''GitBranch'', ''GitRemote'', ''IsTestedBranch'', ''IsReleaseBranch''}
   \<Longrightarrow> params_get (init_versions env ps) k = params_get ps k"
  by (simp add: init_versions_def params_get_def params_put_def params_put_bool_def)

lemma default_vehicle_list_entry: "map_of (default_params env) ''dp_vehicle_list'' = Some ''''"
  by (simp add: default_params_def)

lemma init_seed_vehicle_list:
  "params_get (init_seed env ps0) ''dp_vehicle_list'' = Some (get_support_vehicle_list env)"
  unfolding init_seed_def by (rule set_default_params_keeps) (rule init_vehicle_list_get)

text \<open>
  Claim C10. Whatever the store held before, after the seeding loop of
  \<^verbatim>\<open>manager_init\<close> (and still after the version keys are written) the key
  \<^verbatim>\<open>dp_vehicle_list\<close> holds the computed list of supported vehicles. The default table
  has an entry for the key, the empty string, and the computed list is never the empty
  string, so the default never takes effect.
\<close>

theorem vehicle_list_always_written:
  "params_get (init_seed env ps0) ''dp_vehicle_list'' = Some (get_support_vehicle_list env)
   \<and> params_get (init_versions env (init_seed env ps0)) ''dp_vehicle_list''
       = Some (get_support_vehicle_list env)
   \<and> map_of (default_params env) ''dp_vehicle_list'' = Some ''''
   \<and> get_support_vehicle_list env \<noteq> ''''"
  by (simp add: init_versions_other init_seed_vehicle_list default_vehicle_list_entry
        get_support_vehicle_list_nonempty)

theorem vehicle_list_always_written_witness:
  "params_get (init_seed example_env [''dp_vehicle_list'' \<mapsto> ''stale'']) ''dp_vehicle_list''
     = Some (get_support_vehicle_list example_env)
   \<and> params_get (init_seed example_env Map.empty) ''dp_vehicle_list'' \<noteq> Some ''''"
  using vehicle_list_always_written [of example_env "[''dp_vehicle_list'' \<mapsto> ''stale'']"]
        vehicle_list_always_written [of example_env Map.empty]
  by simp

section \<open>The scan of the shutdown flags\<close>

lemma get_bool_put_other:
  "k \<noteq> k' \<Longrightarrow> params_get_bool (params_put k v ps) k' = params_get_bool ps k'"
  by (simp add: params_get_bool_def params_get_def params_put_def)

lemma get_put_same: "params_get (params_put k v ps) k = Some v"
  by (simp add: params_get_def params_put_def)

lemma scan_param_plain:
  "param \<noteq> ''dp_device_reset_conf'' \<Longrightarrow>
   scan_param env now param (ps, ev, sd) =
     (if params_get_bool ps param
      then (params_put ''LastManagerExitReason'' (param @ '' '' @ now param) ps,
            ev @ [LogWarning (''Shutting down manager - '' @ param @ '' set'')], True)
      else (ps, ev, sd))"
  by (simp add: scan_param_def)

lemma scan_param_reset:
  "scan_param env now ''dp_device_reset_conf'' (ps, ev, sd) =
     (if params_get_bool ps ''dp_device_reset_conf''
      then (params_put ''LastManagerExitReason''
              (''dp_device_reset_conf'' @ '' '' @ now ''dp_device_reset_conf'')
              (os_system env ''rm -fr /data/params/d/dp_*'' ps),
            ev @ [OsSystem ''rm -fr /data/params/d/dp_*'',
                  LogWarning (''Shutting down manager - '' @ ''dp_device_reset_conf'' @ '' set'')],
            True)
      else (ps, ev, sd))"
  by (simp add: scan_param_def)

lemma scan_shutdown_unfold:
  "scan_shutdown env now ps =
     scan_param env now ''dp_device_reset_conf''
       (scan_param env now ''DoReboot''
         (scan_param env now ''DoShutdown''
           (scan_param env now ''DoUninstall'' (ps, [], False))))"
  by (simp add: scan_shutdown_def shutdown_params_def)

lemma scan_shutdown_spec:
  "(matching_flags ps \<noteq> [] \<longrightarrow>
      params_get (store_of (scan_shutdown env now ps)) ''LastManagerExitReason''
        = Some (last (matching_flags ps) @ '' '' @ now (last (matching_flags ps)))
      \<and> result_of (scan_shutdown env now ps) = True)
   \<and> (matching_flags ps = [] \<longrightarrow> scan_shutdown env now ps = (ps, [], False))"
  unfolding scan_shutdown_unfold matching_flags_def shutdown_params_def
  by (simp add: scan_param_plain scan_param_reset get_bool_put_other get_put_same)

lemma scan_shutdown_reason:
  "matching_flags ps \<noteq> [] \<Longrightarrow>
     params_get (store_of (scan_shutdown env now ps)) ''LastManagerExitReason''
       = Some (last (matching_flags ps) @ '' '' @ now (last (matching_flags ps)))"
  using scan_shutdown_spec [of ps env now] by blast

lemma scan_shutdown_none:
  "matching_flags ps = [] \<Longrightarrow> scan_shutdown env now ps = (ps, [], False)"
  using scan_shutdown_spec [of ps env now] by blast

lemma scan_shutdown_result:
  "result_of (scan_shutdown env now ps) = (matching_flags ps \<noteq> [])"
  using scan_shutdown_spec [of ps env now] by (cases "matching_flags ps = []") simp_all

lemma scan_shutdown_events:
  "e \<in> set (events_of (scan_shutdown env now ps)) \<Longrightarrow> loop_event env ig e"
  unfolding scan_shutdown_unfold
  by (auto simp: scan_param_plain scan_param_reset get_bool_put_other split: if_splits)

lemma matching_flags_iff:
  "matching_flags ps \<noteq> [] \<longleftrightarrow> (\<exists>param \<in> set shutdown_params. params_get_bool ps param)"
  by (simp add: matching_flags_def filter_empty_conv)

section \<open>One pass of the loop\<close>

lemma transition_events:
  "snd (transition env s p ps) =
     (if s \<and> \<not> p then [ClearAll CLEAR_ON_ONROAD_TRANSITION]
      else if \<not> s \<and> p then [ClearAll CLEAR_ON_OFFROAD_TRANSITION] else [])
     @ (if s \<noteq> p then [WriteOnroadParams s] else [])"
  by (simp add: transition_def)

lemma tick_work_cases:
  obtains (update_fault) e where
      "raises_at t SmUpdate = Some e"
      "tick_work env ig t p ps = (ps, [], Inl e)"
  | (late_fault) e where
      "raises_at t SmUpdate = None"
      "raises_at t EnsureRunningCall = Some e \<or> raises_at t PmSend = Some e"
      "tick_work env ig t p ps =
         (fst (transition env (sample_started t) p (ext_writes t ps)),
          snd (transition env (sample_started t) p (ext_writes t ps))
            @ [EnsureRunning (managed_processes env) (sample_started t) ig],
          Inl e)"
  | (completed)
      "raises_at t SmUpdate = None" "raises_at t EnsureRunningCall = None"
      "raises_at t PmSend = None"
      "tick_work env ig t p ps =
         (fst (transition env (sample_started t) p (ext_writes t ps)),
          snd (transition env (sample_started t) p (ext_writes t ps))
            @ [EnsureRunning (managed_processes env) (sample_started t) ig,
               Send (managed_processes env)],
          Inr (sample_started t))"
proof (cases "raises_at t SmUpdate")
  case (Some e)
  then have "tick_work env ig t p ps = (ps, [], Inl e)"
    by (simp add: tick_work_def)
  with Some show thesis by (rule update_fault)
next
  case None
  note u = None
  show thesis
  proof (cases "raises_at t EnsureRunningCall")
    case (Some e)
    with u have "tick_work env ig t p ps =
         (fst (transition env (sample_started t) p (ext_writes t ps)),
          snd (transition env (sample_started t) p (ext_writes t ps))
            @ [EnsureRunning (managed_processes env) (sample_started t) ig],
          Inl e)"
      by (simp add: tick_work_def Let_def split_beta)
    with u Some show thesis by (intro late_fault [of e]) simp_all
  next
    case None
    note r = None
    show thesis
    proof (cases "raises_at t PmSend")
      case (Some e)
      with u r have "tick_work env ig t p ps =
         (fst (transition env (sample_started t) p (ext_writes t ps)),
          snd (transition env (sample_started t) p (ext_writes t ps))
            @ [EnsureRunning (managed_processes env) (sample_started t) ig],
          Inl e)"
        by (simp add: tick_work_def Let_def split_beta)
      with u Some show thesis by (intro late_fault [of e]) simp_all
    next
      case None
      with u r have "tick_work env ig t p ps =
         (fst (transition env (sample_started t) p (ext_writes t ps)),
          snd (transition env (sample_started t) p (ext_writes t ps))
            @ [EnsureRunning (managed_processes env) (sample_started t) ig,
               Send (managed_processes env)],
          Inr (sample_started t))"
        by (simp add: tick_work_def Let_def split_beta)
      with u r None show thesis by (rule completed)
    qed
  qed
qed

lemma raises_at_no_fault: "fault t = None \<Longrightarrow> raises_at t c = None"
  by (simp add: raises_at_def)

lemma tick_work_events:
  "e \<in> set (events_of (tick_work env ig t p ps)) \<Longrightarrow> loop_event env ig e"
  by (cases rule: tick_work_cases [of t env ig p ps])
     (auto simp: transition_events split: if_splits)

lemma loop_body_raised:
  "result_of (tick_work env ig t p ps) = Inl e \<Longrightarrow>
   loop_body env ig t p ps =
     (store_of (tick_work env ig t p ps), events_of (tick_work env ig t p ps), Inl e)"
  by (cases "tick_work env ig t p ps") (simp add: loop_body_def)

lemma loop_body_scanned:
  "result_of (tick_work env ig t p ps) = Inr started \<Longrightarrow>
   loop_body env ig t p ps =
     (store_of (scan_shutdown env (now_str t) (store_of (tick_work env ig t p ps))),
      events_of (tick_work env ig t p ps)
        @ events_of (scan_shutdown env (now_str t) (store_of (tick_work env ig t p ps))),
      Inr (started,
           result_of (scan_shutdown env (now_str t) (store_of (tick_work env ig t p ps)))))"
  by (cases "tick_work env ig t p ps";
      cases "scan_shutdown env (now_str t) (store_of (tick_work env ig t p ps))")
     (simp add: loop_body_def)

lemma loop_body_events:
  "e \<in> set (events_of (loop_body env ig t p ps)) \<Longrightarrow> loop_event env ig e"
proof (cases "result_of (tick_work env ig t p ps)")
  case (Inl x)
  assume "e \<in> set (events_of (loop_body env ig t p ps))"
  with Inl show ?thesis
    by (simp add: loop_body_raised tick_work_events)
next
  case (Inr started)
  assume "e \<in> set (events_of (loop_body env ig t p ps))"
  with Inr show ?thesis
    by (auto simp: loop_body_scanned dest: tick_work_events scan_shutdown_events)
qed

section \<open>The loop\<close>

lemma manager_loop_raise:
  "result_of (loop_body env ig t p ps) = Inl e \<Longrightarrow>
   manager_loop env ig (t # ts) p ps =
     (store_of (loop_body env ig t p ps), events_of (loop_body env ig t p ps), Some (Inl e))"
  by (cases "loop_body env ig t p ps") simp

lemma manager_loop_break:
  "result_of (loop_body env ig t p ps) = Inr (started, True) \<Longrightarrow>
   manager_loop env ig (t # ts) p ps =
     (store_of (loop_body env ig t p ps), events_of (loop_body env ig t p ps), Some (Inr ()))"
  by (cases "loop_body env ig t p ps") simp

lemma manager_loop_continue:
  "result_of (loop_body env ig t p ps) = Inr (started, False) \<Longrightarrow>
   manager_loop env ig (t # ts) p ps =
     (store_of (manager_loop env ig ts started (store_of (loop_body env ig t p ps))),
      events_of (loop_body env ig t p ps)
        @ events_of (manager_loop env ig ts started (store_of (loop_body env ig t p ps))),
      result_of (manager_loop env ig ts started (store_of (loop_body env ig t p ps))))"
  by (cases "loop_body env ig t p ps";
      cases "manager_loop env ig ts started (store_of (loop_body env ig t p ps))") simp

lemma loop_body_result_cases:
  obtains (raise) e where "result_of (loop_body env ig t p ps) = Inl e"
  | (break) started where "result_of (loop_body env ig t p ps) = Inr (started, True)"
  | (continue) started where "result_of (loop_body env ig t p ps) = Inr (started, False)"
proof (cases "result_of (loop_body env ig t p ps)")
  case (Inl e)
  then show thesis by (rule raise)
next
  case (Inr sr)
  then show thesis
    by (cases sr; cases "snd sr") (auto intro: break continue)
qed

lemma manager_loop_events:
  "e \<in> set (events_of (manager_loop env ig ts p ps)) \<Longrightarrow> loop_event env ig e"
proof (induction ts arbitrary: p ps)
  case Nil
  then show ?case by simp
next
  case (Cons t ts)
  show ?case
  proof (cases rule: loop_body_result_cases [of env ig t p ps])
    case (raise x)
    with Cons.prems show ?thesis
      by (simp add: manager_loop_raise loop_body_events del: manager_loop.simps)
  next
    case (break started)
    with Cons.prems show ?thesis
      by (simp add: manager_loop_break loop_body_events del: manager_loop.simps)
  next
    case (continue started)
    with Cons.prems Cons.IH [of started "store_of (loop_body env ig t p ps)"] show ?thesis
      by (auto simp: manager_loop_continue simp del: manager_loop.simps dest: loop_body_events)
  qed
qed

lemma manager_thread_unfold:
  "manager_thread env ts ps =
     (store_of (manager_loop env (build_ignore env ps) ts False (write_onroad_params env False ps)),
      [LogInfo ''manager start'', WriteOnroadParams False,
       EnsureRunning (managed_processes env) False (build_ignore env ps)]
      @ events_of (manager_loop env (build_ignore env ps) ts False (write_onroad_params env False ps)),
      result_of (manager_loop env (build_ignore env ps) ts False (write_onroad_params env False ps)))"
  by (cases "manager_loop env (build_ignore env ps) ts False (write_onroad_params env False ps)")
     (simp add: manager_thread_def Let_def)

section \<open>manager_init, main and the script\<close>

lemma manager_init_cases:
  obtains (ok) ps1 d where
      "manager_init env ps0 = (ps1, init_events env @ [Register] @ init_registered env d, Inr ())"
  | (failed) ps1 where
      "manager_init env ps0 =
         (ps1, init_events env @ [Register],
          Inl (registration_failed (params_get ps1 ''HardwareSerial'')))"
      "\<not> truthy (snd (register env (init_versions env (init_seed env ps0))))"
proof -
  obtain ps1 r where reg: "register env (init_versions env (init_seed env ps0)) = (ps1, r)"
    by (cases "register env (init_versions env (init_seed env ps0))")
  show thesis
  proof (cases "truthy r")
    case True
    then obtain d where d: "r = Some d"
      by (cases r) (simp_all add: truthy_def)
    have "manager_init env ps0 = (ps1, init_events env @ [Register] @ init_registered env d, Inr ())"
      using True d by (simp add: manager_init_def reg)
    then show thesis by (rule ok)
  next
    case False
    have "manager_init env ps0 =
        (ps1, init_events env @ [Register], Inl (registration_failed (params_get ps1 ''HardwareSerial'')))"
      using False by (simp add: manager_init_def reg)
    with reg False show thesis by (intro failed [of ps1]) simp_all
  qed
qed

lemma manager_init_falsy:
  "\<not> truthy (snd (register env (init_versions env (init_seed env ps0)))) \<Longrightarrow>
   result_of (manager_init env ps0) =
     Inl (registration_failed (params_get (store_of (manager_init env ps0)) ''HardwareSerial''))"
  by (cases "register env (init_versions env (init_seed env ps0))")
     (simp add: manager_init_def)

lemma init_events_plain:
  "filter is_hardware_action (init_events env) = []" "filter is_stop (init_events env) = []"
  by (simp_all add: init_events_def)

lemma init_registered_plain:
  "filter is_hardware_action (init_registered env d) = []"
  "filter is_stop (init_registered env d) = []"
  by (simp_all add: init_registered_def filter_empty_conv image_iff)

lemma manager_init_plain:
  "filter is_hardware_action (events_of (manager_init env ps0)) = []"
  "filter is_stop (events_of (manager_init env ps0)) = []"
  by (cases rule: manager_init_cases [of env ps0];
      simp add: init_events_plain init_registered_plain)+

lemma loop_event_plain: "loop_event env ig e \<Longrightarrow> \<not> is_hardware_action e \<and> \<not> is_stop e"
  by (cases e) simp_all

lemma manager_thread_plain:
  "filter is_hardware_action (events_of (manager_thread env ts ps)) = []"
  "filter is_stop (events_of (manager_thread env ts ps)) = []"
  by (auto simp: manager_thread_unfold filter_empty_conv
        dest!: manager_loop_events loop_event_plain)

lemma manager_cleanup_stops:
  "filter is_stop (manager_cleanup env) =
     map (\<lambda>p. Stop p False) (managed_processes env) @ map (\<lambda>p. Stop p True) (managed_processes env)"
  "filter is_hardware_action (manager_cleanup env) = []"
  by (simp_all add: manager_cleanup_def filter_empty_conv image_iff filter_id_conv)

lemma hardware_action_select:
  "filter is_hardware_action (hardware_action ps) =
     (if params_get_bool ps ''DoUninstall'' then [HwUninstall]
      else if params_get_bool ps ''DoReboot'' then [HwReboot]
      else if params_get_bool ps ''DoShutdown'' then [HwShutdown]
      else [])"
  "filter is_stop (hardware_action ps) = []"
  by (simp_all add: hardware_action_def)

lemma main_init_failed:
  "result_of (manager_init env ps0) = Inl e \<Longrightarrow>
   main env ts ps0 = (store_of (manager_init env ps0), events_of (manager_init env ps0), Some (Inl e))"
  by (cases "manager_init env ps0") (simp add: main_def)

lemma main_running:
  assumes "result_of (manager_init env ps0) = Inr ()"
    and "\<not> PREPAREONLY env"
    and "result_of (manager_thread env ts (store_of (manager_init env ps0))) = Some r"
  shows "main env ts ps0 =
      (case r of
         Inr v \<Rightarrow>
           (store_of (manager_thread env ts (store_of (manager_init env ps0))),
            events_of (manager_init env ps0) @ [SignalSIGTERM]
            @ events_of (manager_thread env ts (store_of (manager_init env ps0)))
            @ manager_cleanup env
            @ hardware_action (store_of (manager_thread env ts (store_of (manager_init env ps0)))),
            Some (Inr ()))
       | Inl (Exception m) \<Rightarrow>
           (store_of (manager_thread env ts (store_of (manager_init env ps0))),
            events_of (manager_init env ps0) @ [SignalSIGTERM]
            @ events_of (manager_thread env ts (store_of (manager_init env ps0)))
            @ [PrintExc, SentryCapture] @ manager_cleanup env
            @ hardware_action (store_of (manager_thread env ts (store_of (manager_init env ps0)))),
            Some (Inr ()))
       | Inl (SystemExit n) \<Rightarrow>
           (store_of (manager_thread env ts (store_of (manager_init env ps0))),
            events_of (manager_init env ps0) @ [SignalSIGTERM]
            @ events_of (manager_thread env ts (store_of (manager_init env ps0)))
            @ manager_cleanup env,
            Some (Inl (SystemExit n)))
       | Inl KeyboardInterrupt \<Rightarrow>
           (store_of (manager_thread env ts (store_of (manager_init env ps0))),
            events_of (manager_init env ps0) @ [SignalSIGTERM]
            @ events_of (manager_thread env ts (store_of (manager_init env ps0)))
            @ manager_cleanup env,
            Some (Inl KeyboardInterrupt)))"
proof -
  obtain ps1 ev1 where i: "manager_init env ps0 = (ps1, ev1, Inr ())"
    using assms(1) by (cases "manager_init env ps0") auto
  obtain ps2 ev2 where t: "manager_thread env ts ps1 = (ps2, ev2, Some r)"
    using assms(3) i by (cases "manager_thread env ts ps1") auto
  show ?thesis
    using assms(2) by (simp add: main_def i t split: sum.splits exn.splits)
qed


lemma script_init_failed:
  assumes "result_of (manager_init env ps0) = Inl e"
  shows "events_of (script env ts ps0) =
           [UnblockStdout] @ events_of (manager_init env ps0)
           @ [AddFileHandler, LogException ''Manager failed to start'']
           @ (if ''ui'' \<in> set (managed_processes env) then [Stop ''ui'' True] else [])
           @ [TextWindow]
         \<and> result_of (script env ts ps0) = Some 1
         \<and> filter is_stop (events_of (script env ts ps0)) =
             (if ''ui'' \<in> set (managed_processes env) then [Stop ''ui'' True] else [])"
proof -
  obtain m where e: "e = Exception m"
    using assms
    by (cases rule: manager_init_cases [of env ps0]) (auto simp: registration_failed_def)
  have "main env ts ps0 =
          (store_of (manager_init env ps0), events_of (manager_init env ps0), Some (Inl (Exception m)))"
    using assms e by (simp add: main_init_failed)
  then show ?thesis
    by (simp add: script_def manager_init_plain)
qed

text \<open>
  Claim C1, as amended. When \<^verbatim>\<open>manager_init\<close> raises, \<^verbatim>\<open>main\<close> is left before its
  \<^verbatim>\<open>try\<close> statement is entered, so \<^verbatim>\<open>manager_cleanup\<close> does not run: after the events
  of \<^verbatim>\<open>manager_init\<close> the script only logs the failure, stops the worker \<^verbatim>\<open>ui\<close> (if the
  registry has one), shows the error and ends with status 1. No other worker receives a
  stop.
\<close>

theorem init_failure_stops_ui_only:
  assumes "result_of (manager_init env ps0) = Inl e"
  shows "events_of (script env ts ps0) =
           [UnblockStdout] @ events_of (manager_init env ps0)
           @ [AddFileHandler, LogException ''Manager failed to start'']
           @ (if ''ui'' \<in> set (managed_processes env) then [Stop ''ui'' True] else [])
           @ [TextWindow]
         \<and> result_of (script env ts ps0) = Some 1
         \<and> filter is_stop (events_of (script env ts ps0)) =
             (if ''ui'' \<in> set (managed_processes env) then [Stop ''ui'' True] else [])"
  using assms by (rule script_init_failed)

lemma unregistered_init_fails:
  "result_of (manager_init unregistered_env Map.empty) =
     Inl (registration_failed
            (params_get (store_of (manager_init unregistered_env Map.empty)) ''HardwareSerial''))"
  by (rule manager_init_falsy) (simp add: unregistered_env_def truthy_def)

lemma unregistered_processes:
  "managed_processes unregistered_env = [''ui'', ''uploader'', ''manage_athenad'', ''pandad'']"
  by (simp add: unregistered_env_def example_env_def)

theorem init_failure_stops_ui_only_witness:
  "result_of (manager_init unregistered_env Map.empty) =
     Inl (registration_failed
            (params_get (store_of (manager_init unregistered_env Map.empty)) ''HardwareSerial''))
   \<and> result_of (script unregistered_env [quiet_tick False] Map.empty) = Some 1
   \<and> filter is_stop (events_of (script unregistered_env [quiet_tick False] Map.empty))
       = [Stop ''ui'' True]"
proof -
  note w = init_failure_stops_ui_only [OF unregistered_init_fails, of "[quiet_tick False]"]
  from w have "result_of (script unregistered_env [quiet_tick False] Map.empty) = Some 1"
    by blast
  moreover from w have "filter is_stop (events_of (script unregistered_env [quiet_tick False] Map.empty))
       = (if ''ui'' \<in> set (managed_processes unregistered_env) then [Stop ''ui'' True] else [])"
    by blast
  ultimately show ?thesis
    by (simp add: unregistered_init_fails unregistered_processes)
qed

theorem init_failure_runs_cleanup_counterexample:
  "result_of (manager_init unregistered_env Map.empty) =
     Inl (registration_failed
            (params_get (store_of (manager_init unregistered_env Map.empty)) ''HardwareSerial''))
   \<and> result_of (script unregistered_env [quiet_tick False] Map.empty) = Some 1
   \<and> Stop ''uploader'' True \<in> set (manager_cleanup unregistered_env)
   \<and> Stop ''uploader'' True \<notin> set (events_of (script unregistered_env [quiet_tick False] Map.empty))"
proof -
  note f = script_init_failed [OF unregistered_init_fails, of "[quiet_tick False]"]
  from f have stops: "filter is_stop (events_of (script unregistered_env [quiet_tick False] Map.empty))
       = (if ''ui'' \<in> set (managed_processes unregistered_env) then [Stop ''ui'' True] else [])"
    by blast
  have "Stop ''uploader'' True
          \<notin> set (filter is_stop (events_of (script unregistered_env [quiet_tick False] Map.empty)))"
    unfolding stops by (simp add: unregistered_processes)
  then have absent: "Stop ''uploader'' True
          \<notin> set (events_of (script unregistered_env [quiet_tick False] Map.empty))"
    by simp
  have present: "Stop ''uploader'' True \<in> set (manager_cleanup unregistered_env)"
    by (simp add: manager_cleanup_def unregistered_processes)
  from f have "result_of (script unregistered_env [quiet_tick False] Map.empty) = Some 1"
    by blast
  with absent present show ?thesis
    by (simp add: unregistered_init_fails)
qed

text \<open>
  Claim C2, as amended. The scan reads all four flags. When at least one reads true, the
  loop is told to end and the reason left in \<^verbatim>\<open>LastManagerExitReason\<close> names the last
  flag, in the order of the scan, that reads true (each later match overwrites the record
  of the earlier one). When none reads true, the scan changes nothing and the loop goes
  on.
\<close>

theorem last_matching_flag_recorded:
  "(matching_flags ps \<noteq> [] \<longrightarrow>
      params_get (store_of (scan_shutdown env now ps)) ''LastManagerExitReason''
        = Some (last (matching_flags ps) @ '' '' @ now (last (matching_flags ps)))
      \<and> result_of (scan_shutdown env now ps) = True)
   \<and> (matching_flags ps = [] \<longrightarrow> scan_shutdown env now ps = (ps, [], False))"
  by (rule scan_shutdown_spec)

lemma two_flags_matching: "matching_flags two_flags = [''DoUninstall'', ''DoReboot'']"
  by (simp add: matching_flags_def shutdown_params_def two_flags_def params_get_bool_def
        params_get_def)

lemma no_flags_matching: "matching_flags Map.empty = []"
  by (simp add: matching_flags_def shutdown_params_def params_get_bool_def params_get_def)

theorem last_matching_flag_recorded_witness:
  "matching_flags two_flags \<noteq> []
   \<and> params_get (store_of (scan_shutdown example_env example_now two_flags))
        ''LastManagerExitReason'' = Some ''DoReboot 2024-01-01 00:00:00''
   \<and> result_of (scan_shutdown example_env example_now two_flags) = True
   \<and> matching_flags Map.empty = []
   \<and> scan_shutdown example_env example_now Map.empty = (Map.empty, [], False)"
  using last_matching_flag_recorded [of two_flags example_env example_now]
        last_matching_flag_recorded [of Map.empty example_env example_now]
  by (simp add: two_flags_matching no_flags_matching example_now_def)

theorem first_matching_flag_recorded_counterexample:
  "hd (matching_flags two_flags) = ''DoUninstall''
   \<and> params_get (store_of (scan_shutdown example_env example_now two_flags))
        ''LastManagerExitReason''
       \<noteq> Some (''DoUninstall'' @ '' '' @ example_now ''DoUninstall'')
   \<and> params_get (store_of (scan_shutdown example_env example_now two_flags))
        ''LastManagerExitReason''
       = Some (''DoReboot'' @ '' '' @ example_now ''DoReboot'')"
  using scan_shutdown_reason [of two_flags example_env example_now]
  by (simp add: two_flags_matching example_now_def)

section \<open>Exits of the loop\<close>

lemma manager_init_truthy:
  "truthy (snd (register env (init_versions env (init_seed env ps0)))) \<Longrightarrow>
   result_of (manager_init env ps0) = Inr ()"
  by (cases rule: manager_init_cases [of env ps0]) simp_all

lemma example_init_ok: "result_of (manager_init example_env ps0) = Inr ()"
  by (rule manager_init_truthy) (simp add: example_env_def truthy_def)

lemma example_not_prepareonly: "\<not> PREPAREONLY example_env"
  by (simp add: example_env_def)

lemma example_processes:
  "managed_processes example_env = [''ui'', ''uploader'', ''manage_athenad'', ''pandad'']"
  by (simp add: example_env_def)

lemma update_fault_ends_thread:
  assumes "raises_at t SmUpdate = Some e"
  shows "result_of (manager_thread env (t # ts) ps) = Some (Inl e)"
proof -
  have "result_of (tick_work env ig t p ps') = Inl e" for ig p ps'
    using assms by (cases rule: tick_work_cases [of t env ig p ps']) simp_all
  then have "result_of (loop_body env ig t p ps') = Inl e" for ig p ps'
    by (simp add: loop_body_raised)
  then show ?thesis
    by (simp add: manager_thread_unfold manager_loop_raise del: manager_loop.simps)
qed

lemma sigterm_tick_raises: "raises_at sigterm_tick SmUpdate = Some (SystemExit 1)"
  by (simp add: raises_at_def sigterm_tick_def)

lemma flag_ends_loop:
  assumes "result_of (tick_work env ig t p ps) = Inr started"
    and "\<exists>param \<in> set shutdown_params. params_get_bool (store_of (tick_work env ig t p ps)) param"
  shows "result_of (loop_body env ig t p ps) = Inr (started, True)"
    and "manager_loop env ig (t # ts) p ps =
           (store_of (loop_body env ig t p ps), events_of (loop_body env ig t p ps), Some (Inr ()))"
proof -
  from assms(2) have "matching_flags (store_of (tick_work env ig t p ps)) \<noteq> []"
    by (simp add: matching_flags_iff)
  with assms(1) show r: "result_of (loop_body env ig t p ps) = Inr (started, True)"
    by (simp add: loop_body_scanned scan_shutdown_result)
  then show "manager_loop env ig (t # ts) p ps =
           (store_of (loop_body env ig t p ps), events_of (loop_body env ig t p ps), Some (Inr ()))"
    by (rule manager_loop_break)
qed

lemma tick_work_completed:
  assumes "result_of (tick_work env ig t p ps) = Inr started"
  shows "started = sample_started t"
    and "tick_work env ig t p ps =
           (fst (transition env started p (ext_writes t ps)),
            snd (transition env started p (ext_writes t ps))
              @ [EnsureRunning (managed_processes env) started ig, Send (managed_processes env)],
            Inr started)"
  using assms by (cases rule: tick_work_cases [of t env ig p ps]; simp)+

lemma reboot_tick_work:
  "tick_work env ig (reboot_tick False) False ps =
     (ps(''DoReboot'' \<mapsto> ''1''),
      [EnsureRunning (managed_processes env) False ig, Send (managed_processes env)],
      Inr False)"
  by (cases rule: tick_work_cases [of "reboot_tick False" env ig False ps])
     (simp_all add: reboot_tick_def raises_at_def transition_def)

lemma reboot_tick_flag:
  "\<exists>param \<in> set shutdown_params.
     params_get_bool (store_of (tick_work env ig (reboot_tick False) False ps)) param"
  by (simp add: reboot_tick_work shutdown_params_def params_get_bool_def params_get_def)

lemma reboot_tick_ends_thread:
  "result_of (manager_thread env (reboot_tick False # ts) ps) = Some (Inr ())"
proof -
  have "manager_loop env ig (reboot_tick False # ts) False ps' =
           (store_of (loop_body env ig (reboot_tick False) False ps'),
            events_of (loop_body env ig (reboot_tick False) False ps'), Some (Inr ()))" for ig ps'
    by (rule flag_ends_loop(2) [OF _ reboot_tick_flag, where started = False])
       (simp add: reboot_tick_work)
  then show ?thesis
    by (simp add: manager_thread_unfold del: manager_loop.simps)
qed

section \<open>Worker states after the cleanup\<close>

lemma workers_after_append:
  "workers_after enabled (evs @ evs') = fold (worker_step enabled) evs' (workers_after enabled evs)"
  by (simp add: workers_after_def)

lemma fold_stop_other:
  "p \<notin> set qs \<Longrightarrow> fold (worker_step enabled) (map (\<lambda>q. Stop q b) qs) w p = w p"
  by (induction qs arbitrary: w) auto

lemma fold_stop_blocking:
  "p \<in> set qs \<Longrightarrow> fold (worker_step enabled) (map (\<lambda>q. Stop q True) qs) w p = Stopped"
proof (induction qs arbitrary: w)
  case Nil
  then show ?case by simp
next
  case (Cons q qs)
  show ?case
  proof (cases "p \<in> set qs")
    case True
    then show ?thesis by (simp add: Cons.IH)
  next
    case False
    with Cons.prems have "p = q" by simp
    with False show ?thesis by (simp add: fold_stop_other)
  qed
qed

lemma fold_hardware_action: "fold (worker_step enabled) (hardware_action ps) w = w"
  by (simp add: hardware_action_def)

lemma cleanup_stops_all:
  "p \<in> set (managed_processes env) \<Longrightarrow>
   fold (worker_step enabled) (manager_cleanup env) w p = Stopped"
  by (simp add: manager_cleanup_def fold_stop_blocking)

lemma script_after_thread:
  assumes "result_of (manager_init env ps0) = Inr ()"
    and "\<not> PREPAREONLY env"
    and "result_of (manager_thread env ts (store_of (manager_init env ps0))) = Some r"
  shows "events_of (script env ts ps0) =
           [UnblockStdout] @ events_of (manager_init env ps0) @ [SignalSIGTERM]
           @ events_of (manager_thread env ts (store_of (manager_init env ps0)))
           @ (case r of Inl (Exception m) \<Rightarrow> [PrintExc, SentryCapture] | _ \<Rightarrow> [])
           @ manager_cleanup env
           @ (case r of Inl (SystemExit n) \<Rightarrow> []
              | Inl KeyboardInterrupt \<Rightarrow> [Print ''got CTRL-C, exiting'']
              | _ \<Rightarrow> hardware_action (store_of (manager_thread env ts (store_of (manager_init env ps0)))))"
    and "result_of (script env ts ps0) = Some (case r of Inl (SystemExit n) \<Rightarrow> n | _ \<Rightarrow> 0)"
    and "store_of (script env ts ps0) = store_of (manager_thread env ts (store_of (manager_init env ps0)))"
  using main_running [OF assms]
  by (simp_all add: script_def split: sum.splits exn.splits)


lemma script_stops:
  assumes "result_of (manager_init env ps0) = Inr ()"
    and "\<not> PREPAREONLY env"
    and "result_of (manager_thread env ts (store_of (manager_init env ps0))) = Some r"
  shows "filter is_stop (events_of (script env ts ps0)) =
           map (\<lambda>p. Stop p False) (managed_processes env)
           @ map (\<lambda>p. Stop p True) (managed_processes env)"
  by (simp add: script_after_thread(1) [OF assms] manager_init_plain manager_thread_plain
        manager_cleanup_stops hardware_action_select split: sum.splits exn.splits)

text \<open>
  Claim C5. Once \<^verbatim>\<open>manager_init\<close> has returned and the loop is entered, every way out
  of \<^verbatim>\<open>manager_thread\<close> (the \<^verbatim>\<open>break\<close> or any exception) is followed by
  \<^verbatim>\<open>manager_cleanup\<close> before the script ends with an exit status: the events of the
  script are those of the start-up and of the loop, the report of an \<open>Exception\<close>, then
  the cleanup, then at most the hardware decision or the message for an interrupt.
  The cleanup is a stop without blocking for every worker of the registry followed by a
  blocking stop for every worker, and these are the only stops of the whole run.
\<close>

theorem cleanup_on_every_loop_exit:
  assumes "result_of (manager_init env ps0) = Inr ()"
    and "\<not> PREPAREONLY env"
    and "result_of (manager_thread env ts (store_of (manager_init env ps0))) = Some r"
  shows "events_of (script env ts ps0) =
           [UnblockStdout] @ events_of (manager_init env ps0) @ [SignalSIGTERM]
           @ events_of (manager_thread env ts (store_of (manager_init env ps0)))
           @ (case r of Inl (Exception m) \<Rightarrow> [PrintExc, SentryCapture] | _ \<Rightarrow> [])
           @ manager_cleanup env
           @ (case r of Inl (SystemExit n) \<Rightarrow> []
              | Inl KeyboardInterrupt \<Rightarrow> [Print ''got CTRL-C, exiting'']
              | _ \<Rightarrow> hardware_action (store_of (manager_thread env ts (store_of (manager_init env ps0)))))
         \<and> result_of (script env ts ps0) = Some (case r of Inl (SystemExit n) \<Rightarrow> n | _ \<Rightarrow> 0)
         \<and> manager_cleanup env =
             map (\<lambda>p. Stop p False) (managed_processes env)
             @ map (\<lambda>p. Stop p True) (managed_processes env)
             @ [LogInfo ''everything is dead'']
         \<and> filter is_stop (events_of (script env ts ps0)) =
             map (\<lambda>p. Stop p False) (managed_processes env)
             @ map (\<lambda>p. Stop p True) (managed_processes env)"
  using script_after_thread(1,2) [OF assms] script_stops [OF assms]
  by (simp add: manager_cleanup_def)

theorem cleanup_on_every_loop_exit_witness:
  "result_of (manager_init example_env Map.empty) = Inr ()
   \<and> \<not> PREPAREONLY example_env
   \<and> result_of (manager_thread example_env [sigterm_tick]
        (store_of (manager_init example_env Map.empty))) = Some (Inl (SystemExit 1))
   \<and> result_of (script example_env [sigterm_tick] Map.empty) = Some 1
   \<and> filter is_stop (events_of (script example_env [sigterm_tick] Map.empty)) =
       [Stop ''ui'' False, Stop ''uploader'' False, Stop ''manage_athenad'' False,
        Stop ''pandad'' False,
        Stop ''ui'' True, Stop ''uploader'' True, Stop ''manage_athenad'' True,
        Stop ''pandad'' True]"
proof -
  note i = example_init_ok [of Map.empty]
  note t = update_fault_ends_thread [OF sigterm_tick_raises, of example_env "[]"
             "store_of (manager_init example_env Map.empty)"]
  note w = cleanup_on_every_loop_exit [OF i example_not_prepareonly t]
  from w have "result_of (script example_env [sigterm_tick] Map.empty) = Some 1"
    by simp
  moreover from w have "filter is_stop (events_of (script example_env [sigterm_tick] Map.empty)) =
             map (\<lambda>p. Stop p False) (managed_processes example_env)
             @ map (\<lambda>p. Stop p True) (managed_processes example_env)"
    by blast
  ultimately show ?thesis
    using i t example_not_prepareonly by (simp add: example_processes)
qed

lemma all_stopped_after_script:
  assumes "result_of (manager_init env ps0) = Inr ()"
    and "\<not> PREPAREONLY env"
    and "result_of (manager_thread env ts (store_of (manager_init env ps0))) = Some (Inr ())"
    and "p \<in> set (managed_processes env)"
  shows "workers_after enabled (events_of (script env ts ps0)) p = Stopped"
proof -
  have "events_of (script env ts ps0) =
          ([UnblockStdout] @ events_of (manager_init env ps0) @ [SignalSIGTERM]
           @ events_of (manager_thread env ts (store_of (manager_init env ps0))))
          @ manager_cleanup env
          @ hardware_action (store_of (manager_thread env ts (store_of (manager_init env ps0))))"
    using script_after_thread(1) [OF assms(1-3)] by simp
  then show ?thesis
    using assms(4)
    by (simp only: workers_after_append fold_append comp_apply fold_hardware_action
          cleanup_stops_all)
qed

text \<open>
  Claim C4. In a pass of the loop that gets as far as the scan with at least one of the
  four flags reading true, the reconciliation and the heartbeat of that pass have been
  done (they are the last two events before the scan), the pass ends with the
  \<^verbatim>\<open>break\<close>, and the loop returns at once whatever inputs would follow: there is no
  further pass. After the \<^verbatim>\<open>break\<close> the script runs \<^verbatim>\<open>manager_cleanup\<close> and then the
  hardware decision and ends with status 0; by then every worker of the registry is
  stopped.
\<close>

theorem shutdown_flag_ends_loop:
  "(result_of (tick_work env ig t p ps) = Inr started
      \<and> (\<exists>param \<in> set shutdown_params. params_get_bool (store_of (tick_work env ig t p ps)) param)
    \<longrightarrow>
      events_of (loop_body env ig t p ps) =
        snd (transition env started p (ext_writes t ps))
        @ [EnsureRunning (managed_processes env) started ig, Send (managed_processes env)]
        @ events_of (scan_shutdown env (now_str t) (store_of (tick_work env ig t p ps)))
      \<and> result_of (loop_body env ig t p ps) = Inr (started, True)
      \<and> manager_loop env ig (t # ts) p ps =
          (store_of (loop_body env ig t p ps), events_of (loop_body env ig t p ps), Some (Inr ())))
   \<and> (result_of (manager_init env ps0) = Inr () \<and> \<not> PREPAREONLY env
      \<and> result_of (manager_thread env ts' (store_of (manager_init env ps0))) = Some (Inr ())
    \<longrightarrow>
      events_of (script env ts' ps0) =
        [UnblockStdout] @ events_of (manager_init env ps0) @ [SignalSIGTERM]
        @ events_of (manager_thread env ts' (store_of (manager_init env ps0)))
        @ manager_cleanup env
        @ hardware_action (store_of (manager_thread env ts' (store_of (manager_init env ps0))))
      \<and> result_of (script env ts' ps0) = Some 0
      \<and> (\<forall>w \<in> set (managed_processes env).
            workers_after enabled (events_of (script env ts' ps0)) w = Stopped))"
proof (intro conjI impI)
  assume a: "result_of (tick_work env ig t p ps) = Inr started
      \<and> (\<exists>param \<in> set shutdown_params. params_get_bool (store_of (tick_work env ig t p ps)) param)"
  then have r: "result_of (tick_work env ig t p ps) = Inr started"
    and f: "\<exists>param \<in> set shutdown_params. params_get_bool (store_of (tick_work env ig t p ps)) param"
    by simp_all
  show "events_of (loop_body env ig t p ps) =
        snd (transition env started p (ext_writes t ps))
        @ [EnsureRunning (managed_processes env) started ig, Send (managed_processes env)]
        @ events_of (scan_shutdown env (now_str t) (store_of (tick_work env ig t p ps)))"
    using tick_work_completed(2) [OF r] by (simp add: loop_body_scanned [OF r])
  show "result_of (loop_body env ig t p ps) = Inr (started, True)"
    using r f by (rule flag_ends_loop(1))
  show "manager_loop env ig (t # ts) p ps =
          (store_of (loop_body env ig t p ps), events_of (loop_body env ig t p ps), Some (Inr ()))"
    using r f by (rule flag_ends_loop(2))
next
  assume b: "result_of (manager_init env ps0) = Inr () \<and> \<not> PREPAREONLY env
      \<and> result_of (manager_thread env ts' (store_of (manager_init env ps0))) = Some (Inr ())"
  then have i: "result_of (manager_init env ps0) = Inr ()" and n: "\<not> PREPAREONLY env"
    and t: "result_of (manager_thread env ts' (store_of (manager_init env ps0))) = Some (Inr ())"
    by simp_all
  show "events_of (script env ts' ps0) =
        [UnblockStdout] @ events_of (manager_init env ps0) @ [SignalSIGTERM]
        @ events_of (manager_thread env ts' (store_of (manager_init env ps0)))
        @ manager_cleanup env
        @ hardware_action (store_of (manager_thread env ts' (store_of (manager_init env ps0))))"
    using script_after_thread(1) [OF i n t] by simp
  show "result_of (script env ts' ps0) = Some 0"
    using script_after_thread(2) [OF i n t] by simp
  show "\<forall>w \<in> set (managed_processes env).
            workers_after enabled (events_of (script env ts' ps0)) w = Stopped"
    using all_stopped_after_script [OF i n t] by blast
qed

theorem shutdown_flag_ends_loop_witness:
  "result_of (tick_work example_env [''uploader''] (reboot_tick False) False Map.empty) = Inr False
   \<and> (\<exists>param \<in> set shutdown_params.
        params_get_bool
          (store_of (tick_work example_env [''uploader''] (reboot_tick False) False Map.empty)) param)
   \<and> result_of (loop_body example_env [''uploader''] (reboot_tick False) False Map.empty)
       = Inr (False, True)
   \<and> result_of (manager_loop example_env [''uploader'']
        [reboot_tick False, quiet_tick True] False Map.empty) = Some (Inr ())
   \<and> result_of (manager_init example_env Map.empty) = Inr ()
   \<and> \<not> PREPAREONLY example_env
   \<and> result_of (manager_thread example_env [reboot_tick False, quiet_tick True]
        (store_of (manager_init example_env Map.empty))) = Some (Inr ())
   \<and> result_of (script example_env [reboot_tick False, quiet_tick True] Map.empty) = Some 0
   \<and> workers_after always_enabled
        (events_of (script example_env [reboot_tick False, quiet_tick True] Map.empty))
        ''pandad'' = Stopped"
proof -
  have r: "result_of (tick_work example_env [''uploader''] (reboot_tick False) False Map.empty)
             = Inr False"
    by (simp add: reboot_tick_work)
  note f = reboot_tick_flag [of example_env "[''uploader'']" Map.empty]
  note i = example_init_ok [of Map.empty]
  note n = example_not_prepareonly
  note t = reboot_tick_ends_thread [of example_env "[quiet_tick True]"
             "store_of (manager_init example_env Map.empty)"]
  note w = shutdown_flag_ends_loop [of example_env "[''uploader'']" "reboot_tick False" False
             Map.empty False "[quiet_tick True]" Map.empty "[reboot_tick False, quiet_tick True]"
             always_enabled]
  from w r f have "result_of (loop_body example_env [''uploader''] (reboot_tick False) False Map.empty)
       = Inr (False, True)"
    by blast
  moreover from w r f have "manager_loop example_env [''uploader'']
        [reboot_tick False, quiet_tick True] False Map.empty =
          (store_of (loop_body example_env [''uploader''] (reboot_tick False) False Map.empty),
           events_of (loop_body example_env [''uploader''] (reboot_tick False) False Map.empty),
           Some (Inr ()))"
    by blast
  moreover from w i n t
  have "result_of (script example_env [reboot_tick False, quiet_tick True] Map.empty) = Some 0"
    by blast
  moreover from w i n t
  have "\<forall>w \<in> set (managed_processes example_env).
          workers_after always_enabled
            (events_of (script example_env [reboot_tick False, quiet_tick True] Map.empty)) w
          = Stopped"
    by blast
  then have "workers_after always_enabled
        (events_of (script example_env [reboot_tick False, quiet_tick True] Map.empty))
        ''pandad'' = Stopped"
    by (simp add: example_processes)
  ultimately show ?thesis
    using r f i n t by simp
qed

section \<open>The hardware decision\<close>

lemma main_prepareonly:
  "result_of (manager_init env ps0) = Inr () \<Longrightarrow> PREPAREONLY env \<Longrightarrow>
   main env ts ps0 = (store_of (manager_init env ps0), events_of (manager_init env ps0), Some (Inr ()))"
  by (cases "manager_init env ps0") (simp add: main_def)

lemma main_still_running:
  "result_of (manager_init env ps0) = Inr () \<Longrightarrow> \<not> PREPAREONLY env \<Longrightarrow>
   result_of (manager_thread env ts (store_of (manager_init env ps0))) = None \<Longrightarrow>
   main env ts ps0 =
     (store_of (manager_thread env ts (store_of (manager_init env ps0))),
      events_of (manager_init env ps0) @ [SignalSIGTERM]
      @ events_of (manager_thread env ts (store_of (manager_init env ps0))),
      None)"
  by (cases "manager_init env ps0"; cases "manager_thread env ts (store_of (manager_init env ps0))")
     (simp add: main_def)

lemma hardware_action_length: "length (filter is_hardware_action (hardware_action ps)) \<le> 1"
  by (simp add: hardware_action_select)

lemma main_hardware_after_cleanup:
  assumes "result_of (manager_init env ps0) = Inr ()"
    and "\<not> PREPAREONLY env"
    and "result_of (manager_thread env ts (store_of (manager_init env ps0))) = Some r"
  shows "filter is_hardware_action (events_of (main env ts ps0)) =
           (case r of Inl (SystemExit n) \<Rightarrow> [] | Inl KeyboardInterrupt \<Rightarrow> []
            | _ \<Rightarrow> filter is_hardware_action (hardware_action (store_of (main env ts ps0))))"
  by (simp add: main_running [OF assms] manager_init_plain manager_thread_plain
        manager_cleanup_stops split: sum.splits exn.splits)

lemma main_hardware_at_most_one:
  "length (filter is_hardware_action (events_of (main env ts ps0))) \<le> 1"
proof (cases "result_of (manager_init env ps0)")
  case (Inl e)
  then show ?thesis by (simp add: main_init_failed manager_init_plain)
next
  case (Inr u)
  then have i: "result_of (manager_init env ps0) = Inr ()" by simp
  show ?thesis
  proof (cases "PREPAREONLY env")
    case True
    with i show ?thesis by (simp add: main_prepareonly manager_init_plain)
  next
    case False
    show ?thesis
    proof (cases "result_of (manager_thread env ts (store_of (manager_init env ps0)))")
      case None
      with i False show ?thesis
        by (simp add: main_still_running manager_init_plain manager_thread_plain)
    next
      case (Some r)
      show ?thesis
        using hardware_action_length [of "store_of (main env ts ps0)"]
        by (simp add: main_hardware_after_cleanup [OF i False Some]
              split: sum.splits exn.splits)
    qed
  qed
qed

text \<open>
  Claim C9. The hardware decision takes the first of uninstall, reboot and shutdown whose
  flag reads true, in that order, and at most one of them; with none of the three flags
  true (whatever \<^verbatim>\<open>dp_device_reset_conf\<close> reads) it does nothing. No run of \<^verbatim>\<open>main\<close>
  contains more than one hardware action, and when the loop has ended by its \<^verbatim>\<open>break\<close>
  or by an \<open>Exception\<close>, the hardware actions of the run are exactly those of the
  decision taken on the final store, after the cleanup.
\<close>

theorem hardware_action_by_priority:
  "filter is_hardware_action (hardware_action ps) =
     (if params_get_bool ps ''DoUninstall'' then [HwUninstall]
      else if params_get_bool ps ''DoReboot'' then [HwReboot]
      else if params_get_bool ps ''DoShutdown'' then [HwShutdown]
      else [])
   \<and> (\<not> params_get_bool ps ''DoUninstall'' \<and> \<not> params_get_bool ps ''DoReboot''
        \<and> \<not> params_get_bool ps ''DoShutdown'' \<longrightarrow> hardware_action ps = [])
   \<and> length (filter is_hardware_action (events_of (main env ts ps0))) \<le> 1
   \<and> (result_of (manager_init env ps0) = Inr () \<and> \<not> PREPAREONLY env
        \<and> (result_of (manager_thread env ts (store_of (manager_init env ps0))) = Some (Inr ())
           \<or> result_of (manager_thread env ts (store_of (manager_init env ps0)))
                = Some (Inl (Exception m)))
      \<longrightarrow> (\<exists>pre. events_of (main env ts ps0) =
                  pre @ manager_cleanup env @ hardware_action (store_of (main env ts ps0))
                \<and> filter is_hardware_action pre = []))"
proof (intro conjI impI)
  show "filter is_hardware_action (hardware_action ps) =
     (if params_get_bool ps ''DoUninstall'' then [HwUninstall]
      else if params_get_bool ps ''DoReboot'' then [HwReboot]
      else if params_get_bool ps ''DoShutdown'' then [HwShutdown]
      else [])"
    by (rule hardware_action_select)
  show "hardware_action ps = []"
    if "\<not> params_get_bool ps ''DoUninstall'' \<and> \<not> params_get_bool ps ''DoReboot''
        \<and> \<not> params_get_bool ps ''DoShutdown''"
    using that by (simp add: hardware_action_def)
  show "length (filter is_hardware_action (events_of (main env ts ps0))) \<le> 1"
    by (rule main_hardware_at_most_one)
  show "\<exists>pre. events_of (main env ts ps0) =
                  pre @ manager_cleanup env @ hardware_action (store_of (main env ts ps0))
                \<and> filter is_hardware_action pre = []"
    if h: "result_of (manager_init env ps0) = Inr () \<and> \<not> PREPAREONLY env
        \<and> (result_of (manager_thread env ts (store_of (manager_init env ps0))) = Some (Inr ())
           \<or> result_of (manager_thread env ts (store_of (manager_init env ps0)))
                = Some (Inl (Exception m)))"
  proof -
    from h have i: "result_of (manager_init env ps0) = Inr ()" and n: "\<not> PREPAREONLY env"
      by simp_all
    from h consider
        (break) "result_of (manager_thread env ts (store_of (manager_init env ps0))) = Some (Inr ())"
      | (exc) "result_of (manager_thread env ts (store_of (manager_init env ps0)))
                = Some (Inl (Exception m))"
      by blast
    then show ?thesis
    proof cases
      case break
      have "events_of (main env ts ps0) =
              (events_of (manager_init env ps0) @ [SignalSIGTERM]
               @ events_of (manager_thread env ts (store_of (manager_init env ps0))))
              @ manager_cleanup env @ hardware_action (store_of (main env ts ps0))"
        by (simp add: main_running [OF i n break])
      moreover have "filter is_hardware_action
              (events_of (manager_init env ps0) @ [SignalSIGTERM]
               @ events_of (manager_thread env ts (store_of (manager_init env ps0)))) = []"
        by (simp add: manager_init_plain manager_thread_plain)
      ultimately show ?thesis by blast
    next
      case exc
      have "events_of (main env ts ps0) =
              (events_of (manager_init env ps0) @ [SignalSIGTERM]
               @ events_of (manager_thread env ts (store_of (manager_init env ps0)))
               @ [PrintExc, SentryCapture])
              @ manager_cleanup env @ hardware_action (store_of (main env ts ps0))"
        by (simp add: main_running [OF i n exc])
      moreover have "filter is_hardware_action
              (events_of (manager_init env ps0) @ [SignalSIGTERM]
               @ events_of (manager_thread env ts (store_of (manager_init env ps0)))
               @ [PrintExc, SentryCapture]) = []"
        by (simp add: manager_init_plain manager_thread_plain)
      ultimately show ?thesis by blast
    qed
  qed
qed

theorem hardware_action_by_priority_witness:
  "\<not> params_get_bool [''dp_device_reset_conf'' \<mapsto> ''1''] ''DoUninstall''
   \<and> \<not> params_get_bool [''dp_device_reset_conf'' \<mapsto> ''1''] ''DoReboot''
   \<and> \<not> params_get_bool [''dp_device_reset_conf'' \<mapsto> ''1''] ''DoShutdown''
   \<and> hardware_action [''dp_device_reset_conf'' \<mapsto> ''1''] = []
   \<and> filter is_hardware_action (hardware_action [''DoShutdown'' \<mapsto> ''1'', ''DoReboot'' \<mapsto> ''1''])
       = [HwReboot]
   \<and> result_of (manager_init example_env Map.empty) = Inr ()
   \<and> \<not> PREPAREONLY example_env
   \<and> result_of (manager_thread example_env [reboot_tick False]
        (store_of (manager_init example_env Map.empty))) = Some (Inr ())
   \<and> (\<exists>pre. events_of (main example_env [reboot_tick False] Map.empty) =
          pre @ manager_cleanup example_env
          @ hardware_action (store_of (main example_env [reboot_tick False] Map.empty))
        \<and> filter is_hardware_action pre = [])"
proof -
  have flags: "\<not> params_get_bool [''dp_device_reset_conf'' \<mapsto> ''1''] ''DoUninstall''
     \<and> \<not> params_get_bool [''dp_device_reset_conf'' \<mapsto> ''1''] ''DoReboot''
     \<and> \<not> params_get_bool [''dp_device_reset_conf'' \<mapsto> ''1''] ''DoShutdown''"
    by (simp add: params_get_bool_def params_get_def)
  note i = example_init_ok [of Map.empty]
  note n = example_not_prepareonly
  note t = reboot_tick_ends_thread [of example_env "[]"
             "store_of (manager_init example_env Map.empty)"]
  note w1 = hardware_action_by_priority [of "[''dp_device_reset_conf'' \<mapsto> ''1'']" example_env
              "[reboot_tick False]" Map.empty "[]"]
  note w2 = hardware_action_by_priority
              [of "[''DoShutdown'' \<mapsto> ''1'', ''DoReboot'' \<mapsto> ''1'']" example_env
                "[reboot_tick False]" Map.empty "[]"]
  from w1 flags have a: "hardware_action [''dp_device_reset_conf'' \<mapsto> ''1''] = []"
    by blast
  from w2 have b: "filter is_hardware_action
          (hardware_action [''DoShutdown'' \<mapsto> ''1'', ''DoReboot'' \<mapsto> ''1'']) = [HwReboot]"
    by (simp add: params_get_bool_def params_get_def)
  from w1 i n t have c: "\<exists>pre. events_of (main example_env [reboot_tick False] Map.empty) =
          pre @ manager_cleanup example_env
          @ hardware_action (store_of (main example_env [reboot_tick False] Map.empty))
        \<and> filter is_hardware_action pre = []"
    by blast
  from flags a b c i n t show ?thesis by blast
qed

section \<open>Unrolling the loop\<close>

lemma loop_body_started:
  assumes "result_of (loop_body env ig t p ps) = Inr (started, sd)"
  shows "started = sample_started t"
proof (cases "result_of (tick_work env ig t p ps)")
  case (Inl e)
  with assms show ?thesis by (simp add: loop_body_raised)
next
  case (Inr s)
  with assms have "s = started" by (simp add: loop_body_scanned)
  with Inr show ?thesis by (simp add: tick_work_completed(1))
qed

lemma manager_loop_step:
  assumes "result_of (manager_loop env ig (butlast (t # ts)) p ps) = None"
  shows "events_of (manager_loop env ig (t # ts) p ps) =
           events_of (loop_body env ig t p ps)
           @ events_of (manager_loop env ig ts (sample_started t) (store_of (loop_body env ig t p ps)))"
    and "result_of (manager_loop env ig (butlast ts) (sample_started t)
           (store_of (loop_body env ig t p ps))) = None"
proof -
  have both: "events_of (manager_loop env ig (t # ts) p ps) =
           events_of (loop_body env ig t p ps)
           @ events_of (manager_loop env ig ts (sample_started t) (store_of (loop_body env ig t p ps)))
         \<and> result_of (manager_loop env ig (butlast ts) (sample_started t)
           (store_of (loop_body env ig t p ps))) = None"
  proof (cases "ts = []")
    case True
    show ?thesis
    proof (cases rule: loop_body_result_cases [of env ig t p ps])
      case (raise e)
      then show ?thesis
        by (simp add: True manager_loop_raise del: manager_loop.simps(2))
    next
      case (break started)
      then show ?thesis
        by (simp add: True manager_loop_break del: manager_loop.simps(2))
    next
      case (continue started)
      then show ?thesis
        by (simp add: True manager_loop_continue del: manager_loop.simps(2))
    qed
  next
    case False
    then have bl: "butlast (t # ts) = t # butlast ts" by simp
    show ?thesis
    proof (cases rule: loop_body_result_cases [of env ig t p ps])
      case (raise e)
      with assms show ?thesis
        by (simp add: bl manager_loop_raise del: manager_loop.simps(2) butlast.simps)
    next
      case (break started)
      with assms show ?thesis
        by (simp add: bl manager_loop_break del: manager_loop.simps(2) butlast.simps)
    next
      case (continue started)
      then have s: "started = sample_started t" by (rule loop_body_started)
      from assms continue show ?thesis
        by (simp add: bl s manager_loop_continue del: manager_loop.simps(2) butlast.simps)
    qed
  qed
  from both show "events_of (manager_loop env ig (t # ts) p ps) =
           events_of (loop_body env ig t p ps)
           @ events_of (manager_loop env ig ts (sample_started t) (store_of (loop_body env ig t p ps)))"
    by simp
  from both show "result_of (manager_loop env ig (butlast ts) (sample_started t)
           (store_of (loop_body env ig t p ps))) = None"
    by simp
qed

section \<open>Clears on the edges of the onroad signal\<close>

lemma clears_append: "clears c (evs @ evs') = clears c evs + clears c evs'"
  by (simp add: clears_def)

lemma clears_Cons: "clears c (e # evs) = (if e = ClearAll c then 1 else 0) + clears c evs"
  by (simp add: clears_def)

lemma clears_Nil: "clears c [] = 0"
  by (simp add: clears_def)

lemma scan_shutdown_event_kinds:
  "e \<in> set (events_of (scan_shutdown env now ps)) \<Longrightarrow>
   (\<exists>cmd. e = OsSystem cmd) \<or> (\<exists>msg. e = LogWarning msg)"
  unfolding scan_shutdown_unfold
  by (auto simp: scan_param_plain scan_param_reset split: if_splits)

lemma scan_shutdown_quiet:
  "clears c (events_of (scan_shutdown env now ps)) = 0"
  "filter is_reconcile_or_send (events_of (scan_shutdown env now ps)) = []"
  by (auto simp: clears_def filter_empty_conv dest: scan_shutdown_event_kinds)

lemma transition_clears:
  "clears c (snd (transition env s p ps)) =
     (if (c = CLEAR_ON_ONROAD_TRANSITION \<and> s \<and> \<not> p)
         \<or> (c = CLEAR_ON_OFFROAD_TRANSITION \<and> \<not> s \<and> p) then 1 else 0)"
  by (auto simp: transition_events clears_def)

lemma transition_no_reconcile:
  "filter is_reconcile_or_send (snd (transition env s p ps)) = []"
  by (simp add: transition_events)

lemma loop_body_clears:
  "clears c (events_of (loop_body env ig t p ps)) =
     (if raises_at t SmUpdate = None
         \<and> ((c = CLEAR_ON_ONROAD_TRANSITION \<and> sample_started t \<and> \<not> p)
            \<or> (c = CLEAR_ON_OFFROAD_TRANSITION \<and> \<not> sample_started t \<and> p))
      then 1 else 0)"
proof (cases rule: tick_work_cases [of t env ig p ps])
  case (update_fault e)
  then show ?thesis by (simp add: loop_body_raised clears_Nil)
next
  case (late_fault e)
  then show ?thesis
    by (simp add: loop_body_raised clears_append clears_Cons clears_Nil transition_clears)
next
  case completed
  then show ?thesis
    by (simp add: loop_body_scanned clears_append clears_Cons clears_Nil transition_clears
          scan_shutdown_quiet)
qed

lemma manager_loop_clears:
  assumes "result_of (manager_loop env ig (butlast ts) p ps) = None"
    and "\<forall>t \<in> set ts. raises_at t SmUpdate = None"
  shows "clears CLEAR_ON_ONROAD_TRANSITION (events_of (manager_loop env ig ts p ps))
           = edges False True p (map sample_started ts)
         \<and> clears CLEAR_ON_OFFROAD_TRANSITION (events_of (manager_loop env ig ts p ps))
           = edges True False p (map sample_started ts)"
  using assms
proof (induction ts arbitrary: p ps)
  case Nil
  then show ?case by (simp add: clears_def)
next
  case (Cons t ts)
  note step = manager_loop_step [OF Cons.prems(1)]
  from Cons.prems(2) have u: "raises_at t SmUpdate = None"
    and rest: "\<forall>t \<in> set ts. raises_at t SmUpdate = None"
    by simp_all
  note ih = Cons.IH [OF step(2) rest]
  show ?case
    by (auto simp: step(1) clears_append ih loop_body_clears u simp del: manager_loop.simps)
qed

lemma manager_thread_clears:
  assumes "result_of (manager_thread env (butlast ts) ps) = None"
    and "\<forall>t \<in> set ts. raises_at t SmUpdate = None"
  shows "clears CLEAR_ON_ONROAD_TRANSITION (events_of (manager_thread env ts ps))
           = edges False True False (map sample_started ts)
         \<and> clears CLEAR_ON_OFFROAD_TRANSITION (events_of (manager_thread env ts ps))
           = edges True False False (map sample_started ts)"
proof -
  from assms(1)
  have "result_of (manager_loop env (build_ignore env ps) (butlast ts) False
          (write_onroad_params env False ps)) = None"
    by (simp add: manager_thread_unfold)
  from manager_loop_clears [OF this assms(2)] show ?thesis
    by (simp add: manager_thread_unfold clears_append clears_Cons clears_Nil)
qed

text \<open>
  Claim C3. While the loop runs (it has not ended before the last of the passes
  considered, and every pass took its sample), the number of clears of the onroad
  category among the events of \<^verbatim>\<open>manager_thread\<close> is the number of steps from false to
  true in the sampled sequence, taken after the value false that \<^verbatim>\<open>started_prev\<close> holds
  before the first pass, and the number of clears of the offroad category is the number
  of steps from true to false. A pass whose sample equals the previous value clears
  nothing, and no pass clears a category more than once.
\<close>

theorem transition_clears_once_per_edge:
  "(result_of (manager_thread env (butlast ts) ps) = None
      \<and> (\<forall>t \<in> set ts. raises_at t SmUpdate = None)
    \<longrightarrow> clears CLEAR_ON_ONROAD_TRANSITION (events_of (manager_thread env ts ps))
          = edges False True False (map sample_started ts)
        \<and> clears CLEAR_ON_OFFROAD_TRANSITION (events_of (manager_thread env ts ps))
          = edges True False False (map sample_started ts))
   \<and> (sample_started t = p \<longrightarrow> clears c (events_of (loop_body env ig t p ps')) = 0)
   \<and> clears c (events_of (loop_body env ig t p ps')) \<le> 1"
  using manager_thread_clears [of env ts ps]
  by (simp add: loop_body_clears)


section \<open>Runs of the concrete device\<close>

lemma quiet_tick_fields:
  "sample_started (quiet_tick b) = b" "fault (quiet_tick b) = None"
  "ext_writes (quiet_tick b) ps = ps" "now_str (quiet_tick b) = example_now"
  "raises_at (quiet_tick b) site = None"
  by (simp_all add: quiet_tick_def raises_at_def)

lemma example_write_onroad_flags:
  "k \<in> set shutdown_params \<Longrightarrow>
   params_get_bool (write_onroad_params example_env b ps) k = params_get_bool ps k"
  by (auto simp: example_env_def shutdown_params_def params_put_bool_def params_put_def
        params_get_bool_def params_get_def)

lemma clear_all_flags:
  "params_get_bool (params_clear_all kt c ps) k \<Longrightarrow> params_get_bool ps k"
  by (simp add: params_clear_all_def params_get_bool_def params_get_def split: if_splits)

lemma example_transition_flags:
  assumes "k \<in> set shutdown_params"
    and "params_get_bool (fst (transition example_env s p ps)) k"
  shows "params_get_bool ps k"
  using assms(2)
  by (auto simp: transition_def example_write_onroad_flags [OF assms(1)]
        split: if_splits dest: clear_all_flags)

lemma example_transition_no_flags:
  "matching_flags ps = [] \<Longrightarrow> matching_flags (fst (transition example_env s p ps)) = []"
  by (auto simp: matching_flags_def filter_empty_conv dest: example_transition_flags)

lemma quiet_loop_body:
  assumes "matching_flags ps = []"
  shows "result_of (loop_body example_env ig (quiet_tick b) p ps) = Inr (b, False)"
    and "matching_flags (store_of (loop_body example_env ig (quiet_tick b) p ps)) = []"
proof -
  have tw: "tick_work example_env ig (quiet_tick b) p ps =
         (fst (transition example_env b p ps),
          snd (transition example_env b p ps)
            @ [EnsureRunning (managed_processes example_env) b ig,
               Send (managed_processes example_env)],
          Inr b)"
    by (cases rule: tick_work_cases [of "quiet_tick b" example_env ig p ps])
       (simp_all add: quiet_tick_fields)
  then have r: "result_of (tick_work example_env ig (quiet_tick b) p ps) = Inr b"
    by simp
  have nf: "matching_flags (store_of (tick_work example_env ig (quiet_tick b) p ps)) = []"
    using assms by (simp add: tw example_transition_no_flags)
  show "result_of (loop_body example_env ig (quiet_tick b) p ps) = Inr (b, False)"
    by (simp add: loop_body_scanned [OF r] scan_shutdown_result nf)
  show "matching_flags (store_of (loop_body example_env ig (quiet_tick b) p ps)) = []"
    by (simp add: loop_body_scanned [OF r] scan_shutdown_none [OF nf] nf)
qed

lemma quiet_loop_running:
  "matching_flags ps = [] \<Longrightarrow>
   result_of (manager_loop example_env ig (map quiet_tick bs) p ps) = None"
proof (induction bs arbitrary: p ps)
  case Nil
  then show ?case by simp
next
  case (Cons b bs)
  note lb = quiet_loop_body [OF Cons.prems, of ig b p]
  from Cons.IH [OF lb(2)] show ?case
    by (simp add: manager_loop_continue [OF lb(1)] del: manager_loop.simps)
qed

lemma quiet_thread_running:
  "result_of (manager_thread example_env (map quiet_tick bs) Map.empty) = None"
proof -
  have "\<not> params_get_bool (write_onroad_params example_env False Map.empty) k"
    if "k \<in> set shutdown_params" for k
    unfolding example_write_onroad_flags [OF that]
    by (simp add: params_get_bool_def params_get_def)
  then have "matching_flags (write_onroad_params example_env False Map.empty) = []"
    by (simp add: matching_flags_def filter_empty_conv)
  then show ?thesis
    by (simp add: manager_thread_unfold quiet_loop_running del: manager_loop.simps)
qed

theorem transition_clears_once_per_edge_witness:
  "result_of (manager_thread example_env
       (butlast (map quiet_tick [False, False, True, True, False])) Map.empty) = None
   \<and> list_all (\<lambda>t. raises_at t SmUpdate = None)
        (map quiet_tick [False, False, True, True, False])
   \<and> clears CLEAR_ON_ONROAD_TRANSITION
        (events_of (manager_thread example_env
           (map quiet_tick [False, False, True, True, False]) Map.empty)) = 1
   \<and> clears CLEAR_ON_OFFROAD_TRANSITION
        (events_of (manager_thread example_env
           (map quiet_tick [False, False, True, True, False]) Map.empty)) = 1
   \<and> sample_started (quiet_tick True) = True
   \<and> clears CLEAR_ON_ONROAD_TRANSITION
        (events_of (loop_body example_env [] (quiet_tick True) True Map.empty)) = 0"
proof -
  have run: "result_of (manager_thread example_env
       (butlast (map quiet_tick [False, False, True, True, False])) Map.empty) = None"
    using quiet_thread_running [of "[False, False, True, True]"] by simp
  have upd: "\<forall>t \<in> set (map quiet_tick [False, False, True, True, False]).
               raises_at t SmUpdate = None"
    by (simp add: quiet_tick_fields)
  have same: "sample_started (quiet_tick True) = True"
    by (simp add: quiet_tick_fields)
  note w = transition_clears_once_per_edge
             [of example_env "map quiet_tick [False, False, True, True, False]" Map.empty
                 "quiet_tick True" True CLEAR_ON_ONROAD_TRANSITION "[]" Map.empty]
  from w run upd have "clears CLEAR_ON_ONROAD_TRANSITION
        (events_of (manager_thread example_env
           (map quiet_tick [False, False, True, True, False]) Map.empty))
      = edges False True False (map sample_started (map quiet_tick [False, False, True, True, False]))
    \<and> clears CLEAR_ON_OFFROAD_TRANSITION
        (events_of (manager_thread example_env
           (map quiet_tick [False, False, True, True, False]) Map.empty))
      = edges True False False (map sample_started (map quiet_tick [False, False, True, True, False]))"
    by blast
  moreover from w same have "clears CLEAR_ON_ONROAD_TRANSITION
        (events_of (loop_body example_env [] (quiet_tick True) True Map.empty)) = 0"
    by blast
  ultimately show ?thesis
    using run upd same by (simp add: quiet_tick_fields list_all_iff)
qed

section \<open>The heartbeat\<close>

lemma loop_body_reconcile_send:
  "fault t = None \<Longrightarrow>
   filter is_reconcile_or_send (events_of (loop_body env ig t p ps)) =
     [EnsureRunning (managed_processes env) (sample_started t) ig, Send (managed_processes env)]"
  by (cases rule: tick_work_cases [of t env ig p ps])
     (simp_all add: raises_at_no_fault loop_body_scanned transition_no_reconcile
        scan_shutdown_quiet)

lemma loop_body_reconcile_send_prefix:
  "filter is_reconcile_or_send (events_of (loop_body env ig t p ps)) = []
   \<or> filter is_reconcile_or_send (events_of (loop_body env ig t p ps)) =
       [EnsureRunning (managed_processes env) (sample_started t) ig]
   \<or> filter is_reconcile_or_send (events_of (loop_body env ig t p ps)) =
       [EnsureRunning (managed_processes env) (sample_started t) ig, Send (managed_processes env)]"
  by (cases rule: tick_work_cases [of t env ig p ps])
     (simp_all add: loop_body_raised loop_body_scanned transition_no_reconcile
        scan_shutdown_quiet)

lemma manager_loop_reconcile_send:
  assumes "result_of (manager_loop env ig (butlast ts) p ps) = None"
    and "\<forall>t \<in> set ts. fault t = None"
  shows "filter is_reconcile_or_send (events_of (manager_loop env ig ts p ps)) =
           concat (map (\<lambda>t. [EnsureRunning (managed_processes env) (sample_started t) ig,
                              Send (managed_processes env)]) ts)"
  using assms
proof (induction ts arbitrary: p ps)
  case Nil
  then show ?case by simp
next
  case (Cons t ts)
  note step = manager_loop_step [OF Cons.prems(1)]
  from Cons.prems(2) have f: "fault t = None" and rest: "\<forall>t \<in> set ts. fault t = None"
    by simp_all
  note ih = Cons.IH [OF step(2) rest]
  show ?case
    by (simp add: step(1) ih loop_body_reconcile_send [OF f] del: manager_loop.simps)
qed

lemma filter_send_ticks:
  "filter is_send (concat (map (\<lambda>t. [EnsureRunning procs (f t) ig, Send procs]) ts)) =
     replicate (length ts) (Send procs)"
  by (induction ts) simp_all

lemma filter_send_via_reconcile:
  "filter is_send evs = filter is_send (filter is_reconcile_or_send evs)"
proof -
  have "is_send e \<Longrightarrow> is_reconcile_or_send e" for e
    by (cases e) simp_all
  then show ?thesis
    by (auto simp: filter_filter intro: filter_cong)
qed

lemma manager_thread_reconcile_send:
  assumes "result_of (manager_thread env (butlast ts) ps) = None"
    and "\<forall>t \<in> set ts. fault t = None"
  shows "filter is_reconcile_or_send (events_of (manager_thread env ts ps)) =
           EnsureRunning (managed_processes env) False (build_ignore env ps)
           # concat (map (\<lambda>t. [EnsureRunning (managed_processes env) (sample_started t)
                                  (build_ignore env ps),
                                Send (managed_processes env)]) ts)"
proof -
  from assms(1)
  have "result_of (manager_loop env (build_ignore env ps) (butlast ts) False
          (write_onroad_params env False ps)) = None"
    by (simp add: manager_thread_unfold)
  from manager_loop_reconcile_send [OF this assms(2)] show ?thesis
    by (simp add: manager_thread_unfold)
qed

text \<open>
  Claim C8. A pass of the loop in which no call raises produces exactly one
  reconciliation followed by exactly one heartbeat, and the heartbeat lists the registry
  in its order. In any pass at all the heartbeat never comes before the reconciliation
  and never twice (a pass cut short by an exception may have none). Over any run of
  passes that the loop performs without an exception, the reconciliations and heartbeats
  of \<^verbatim>\<open>manager_thread\<close> are the reconciliation made before the loop and then, pass by
  pass, one reconciliation and one heartbeat: as many heartbeats as passes.
\<close>

theorem heartbeat_once_per_tick_after_reconcile:
  "(fault t = None \<longrightarrow>
      filter is_reconcile_or_send (events_of (loop_body env ig t p ps)) =
        [EnsureRunning (managed_processes env) (sample_started t) ig,
         Send (managed_processes env)])
   \<and> (filter is_reconcile_or_send (events_of (loop_body env ig t p ps)) = []
      \<or> filter is_reconcile_or_send (events_of (loop_body env ig t p ps)) =
          [EnsureRunning (managed_processes env) (sample_started t) ig]
      \<or> filter is_reconcile_or_send (events_of (loop_body env ig t p ps)) =
          [EnsureRunning (managed_processes env) (sample_started t) ig,
           Send (managed_processes env)])
   \<and> (result_of (manager_thread env (butlast ts) ps0) = None
        \<and> (\<forall>t \<in> set ts. fault t = None)
      \<longrightarrow> filter is_reconcile_or_send (events_of (manager_thread env ts ps0)) =
            EnsureRunning (managed_processes env) False (build_ignore env ps0)
            # concat (map (\<lambda>t. [EnsureRunning (managed_processes env) (sample_started t)
                                   (build_ignore env ps0),
                                 Send (managed_processes env)]) ts)
          \<and> filter is_send (events_of (manager_thread env ts ps0)) =
              replicate (length ts) (Send (managed_processes env)))"
proof (intro conjI impI)
  show "filter is_reconcile_or_send (events_of (loop_body env ig t p ps)) =
        [EnsureRunning (managed_processes env) (sample_started t) ig,
         Send (managed_processes env)]" if "fault t = None"
    using that by (rule loop_body_reconcile_send)
  show "filter is_reconcile_or_send (events_of (loop_body env ig t p ps)) = []
      \<or> filter is_reconcile_or_send (events_of (loop_body env ig t p ps)) =
          [EnsureRunning (managed_processes env) (sample_started t) ig]
      \<or> filter is_reconcile_or_send (events_of (loop_body env ig t p ps)) =
          [EnsureRunning (managed_processes env) (sample_started t) ig,
           Send (managed_processes env)]"
    by (rule loop_body_reconcile_send_prefix)
next
  assume h: "result_of (manager_thread env (butlast ts) ps0) = None
        \<and> (\<forall>t \<in> set ts. fault t = None)"
  then have r: "result_of (manager_thread env (butlast ts) ps0) = None"
    and f: "\<forall>t \<in> set ts. fault t = None"
    by simp_all
  show rs: "filter is_reconcile_or_send (events_of (manager_thread env ts ps0)) =
            EnsureRunning (managed_processes env) False (build_ignore env ps0)
            # concat (map (\<lambda>t. [EnsureRunning (managed_processes env) (sample_started t)
                                   (build_ignore env ps0),
                                 Send (managed_processes env)]) ts)"
    using r f by (rule manager_thread_reconcile_send)
  show "filter is_send (events_of (manager_thread env ts ps0)) =
              replicate (length ts) (Send (managed_processes env))"
    by (subst filter_send_via_reconcile) (simp add: rs filter_send_ticks)
qed

theorem heartbeat_once_per_tick_after_reconcile_witness:
  "fault (quiet_tick True) = None
   \<and> filter is_reconcile_or_send
        (events_of (loop_body example_env [''uploader''] (quiet_tick True) False Map.empty)) =
       [EnsureRunning [''ui'', ''uploader'', ''manage_athenad'', ''pandad''] True [''uploader''],
        Send [''ui'', ''uploader'', ''manage_athenad'', ''pandad'']]
   \<and> result_of (manager_thread example_env (butlast (map quiet_tick [False, True])) Map.empty) = None
   \<and> list_all (\<lambda>t. fault t = None) (map quiet_tick [False, True])
   \<and> filter is_send (events_of (manager_thread example_env (map quiet_tick [False, True]) Map.empty)) =
       [Send [''ui'', ''uploader'', ''manage_athenad'', ''pandad''],
        Send [''ui'', ''uploader'', ''manage_athenad'', ''pandad'']]"
proof -
  have nf: "fault (quiet_tick True) = None"
    by (simp add: quiet_tick_fields)
  have run: "result_of (manager_thread example_env (butlast (map quiet_tick [False, True])) Map.empty)
               = None"
    using quiet_thread_running [of "[False]"] by simp
  have all: "\<forall>t \<in> set (map quiet_tick [False, True]). fault t = None"
    by (simp add: quiet_tick_fields)
  note w = heartbeat_once_per_tick_after_reconcile
             [of "quiet_tick True" example_env "[''uploader'']" False Map.empty
                 "map quiet_tick [False, True]" Map.empty]
  from w nf have "filter is_reconcile_or_send
        (events_of (loop_body example_env [''uploader''] (quiet_tick True) False Map.empty)) =
        [EnsureRunning (managed_processes example_env) (sample_started (quiet_tick True))
           [''uploader''],
         Send (managed_processes example_env)]"
    by blast
  moreover from w run all
  have "filter is_send (events_of (manager_thread example_env (map quiet_tick [False, True]) Map.empty))
          = replicate (length (map quiet_tick [False, True])) (Send (managed_processes example_env))"
    by blast
  ultimately show ?thesis
    using nf run all
    by (simp add: example_processes quiet_tick_fields numeral_2_eq_2 list_all_iff)
qed

section \<open>Blocked workers\<close>

lemma signal_stop_not_running: "signal_stop w \<noteq> Running"
  by (cases w) (simp_all add: signal_stop_def)

lemma worker_step_keeps_blocked:
  assumes "\<forall>procs started not_run. e = EnsureRunning procs started not_run \<longrightarrow> name \<in> set not_run"
    and "w name \<noteq> Running"
  shows "worker_step enabled e w name \<noteq> Running"
  using assms by (cases e) (simp_all add: should_run_def signal_stop_not_running)

lemma fold_worker_step_keeps_blocked:
  assumes "\<forall>procs started not_run.
             EnsureRunning procs started not_run \<in> set evs \<longrightarrow> name \<in> set not_run"
    and "w name \<noteq> Running"
  shows "fold (worker_step enabled) evs w name \<noteq> Running"
  using assms
proof (induction evs arbitrary: w)
  case Nil
  then show ?case by simp
next
  case (Cons e evs)
  have "worker_step enabled e w name \<noteq> Running"
    using Cons.prems by (intro worker_step_keeps_blocked) auto
  moreover have "\<forall>procs started not_run.
             EnsureRunning procs started not_run \<in> set evs \<longrightarrow> name \<in> set not_run"
    using Cons.prems(1) by auto
  ultimately show ?case
    using Cons.IH by simp
qed

lemma manager_thread_not_run:
  assumes "EnsureRunning procs started not_run \<in> set (events_of (manager_thread env ts ps))"
  shows "not_run = build_ignore env ps" and "procs = managed_processes env"
  using assms manager_loop_events
          [of "EnsureRunning procs started not_run" env "build_ignore env ps" ts False
              "write_onroad_params env False ps"]
  by (auto simp: manager_thread_unfold)

lemma unregistered_in_ignore:
  assumes "params_get ps ''DongleId'' = None
           \<or> params_get ps ''DongleId'' = Some (UNREGISTERED_DONGLE_ID env)"
  shows "''uploader'' \<in> set (build_ignore env ps)"
    and "''manage_athenad'' \<in> set (build_ignore env ps)"
  using assms by (auto simp: build_ignore_def Let_def)

lemma blocked_never_running:
  assumes "name \<in> set (build_ignore env ps)"
  shows "workers_after enabled (take n (events_of (manager_thread env ts ps))) name \<noteq> Running"
  unfolding workers_after_def
proof (rule fold_worker_step_keeps_blocked)
  show "\<forall>procs started not_run.
          EnsureRunning procs started not_run \<in> set (take n (events_of (manager_thread env ts ps)))
          \<longrightarrow> name \<in> set not_run"
    using assms by (auto dest!: in_set_takeD manager_thread_not_run(1))
  show "Stopped \<noteq> Running" by simp
qed

text \<open>
  Claim C7. The list \<^verbatim>\<open>ignore\<close> is built once when \<^verbatim>\<open>manager_thread\<close> starts; when
  the stored identity is absent or the unregistered sentinel at that moment it contains
  \<^verbatim>\<open>uploader\<close> and \<^verbatim>\<open>manage_athenad\<close>. Every reconciliation of the run, before the loop
  and in every pass, whatever the onroad value, is called over the whole registry with
  exactly this list as \<^verbatim>\<open>not_run\<close>. With the reconciler of the specification, a worker
  named in the list is therefore not running at any point of the run.
\<close>

theorem blocked_workers_never_run:
  "(params_get ps ''DongleId'' = None
      \<or> params_get ps ''DongleId'' = Some (UNREGISTERED_DONGLE_ID env)
    \<longrightarrow> ''uploader'' \<in> set (build_ignore env ps)
        \<and> ''manage_athenad'' \<in> set (build_ignore env ps))
   \<and> (\<forall>procs started not_run.
        EnsureRunning procs started not_run \<in> set (events_of (manager_thread env ts ps))
        \<longrightarrow> procs = managed_processes env \<and> not_run = build_ignore env ps)
   \<and> (\<forall>name \<in> set (build_ignore env ps). \<forall>n.
        workers_after enabled (take n (events_of (manager_thread env ts ps))) name \<noteq> Running)"
  using unregistered_in_ignore [of ps env] manager_thread_not_run [of _ _ _ env ts ps]
        blocked_never_running [of _ env ps enabled _ ts]
  by blast


lemma example_ignore:
  "build_ignore example_env Map.empty = [''manage_athenad'', ''uploader'', ''uploader'']"
  by (simp add: build_ignore_def example_env_def params_get_bool_def params_get_def)

lemma example_thread_start:
  "events_of (manager_thread example_env [] Map.empty) =
     [LogInfo ''manager start'', WriteOnroadParams False,
      EnsureRunning [''ui'', ''uploader'', ''manage_athenad'', ''pandad''] False
        [''manage_athenad'', ''uploader'', ''uploader'']]"
  by (simp add: manager_thread_unfold example_ignore example_processes)

theorem blocked_workers_never_run_witness:
  "params_get Map.empty ''DongleId'' = None
   \<and> ''uploader'' \<in> set (build_ignore example_env Map.empty)
   \<and> ''manage_athenad'' \<in> set (build_ignore example_env Map.empty)
   \<and> EnsureRunning [''ui'', ''uploader'', ''manage_athenad'', ''pandad''] False
        [''manage_athenad'', ''uploader'', ''uploader'']
       \<in> set (events_of (manager_thread example_env [] Map.empty))
   \<and> workers_after always_enabled (take 3 (events_of (manager_thread example_env [] Map.empty)))
        ''uploader'' \<noteq> Running
   \<and> workers_after always_enabled (take 3 (events_of (manager_thread example_env [] Map.empty)))
        ''ui'' = Running"
proof -
  have absent: "params_get Map.empty ''DongleId'' = None"
    by (simp add: params_get_def)
  note w = blocked_workers_never_run [of Map.empty example_env "[]" always_enabled]
  from w absent have in_list: "''uploader'' \<in> set (build_ignore example_env Map.empty)
        \<and> ''manage_athenad'' \<in> set (build_ignore example_env Map.empty)"
    by blast
  with w have "workers_after always_enabled
        (take 3 (events_of (manager_thread example_env [] Map.empty))) ''uploader'' \<noteq> Running"
    by blast
  moreover have "workers_after always_enabled
        (take 3 (events_of (manager_thread example_env [] Map.empty))) ''ui'' = Running"
    by (simp add: example_thread_start workers_after_def should_run_def always_enabled_def)
  ultimately show ?thesis
    using absent in_list by (simp add: example_thread_start)
qed

end
